theory Spec2Isabelle
  imports Main
begin

section \<open>JavaScript dates as the handlers use them\<close>

text \<open>
  The scheduling handlers compute with JavaScript \<^verbatim>\<open>Date\<close> objects through their local-time
  accessors. A date is modelled by its local fields; the server's zone is taken to have a fixed
  offset, so that the local fields of an instant never jump. \<open>getMonth\<close> counts from 0 as in
  JavaScript, \<open>getSecMs\<close> holds the seconds and milliseconds within the minute.
\<close>

record jsdate =
  getFullYear :: int
  getMonth :: int
  getDate :: int
  getHours :: int
  getMinutes :: int
  getSecMs :: int

definition InLeapYear :: "int \<Rightarrow> bool" where
  "InLeapYear y \<longleftrightarrow> y mod 4 = 0 \<and> (y mod 100 \<noteq> 0 \<or> y mod 400 = 0)"

definition DaysInMonth :: "int \<Rightarrow> int \<Rightarrow> int" where
  "DaysInMonth y m =
     (if m = 1 then (if InLeapYear y then 29 else 28)
      else if m = 3 \<or> m = 5 \<or> m = 8 \<or> m = 10 then 30 else 31)"

text \<open>Day number of the first of January of year \<open>y\<close>, counted from 1970-01-01 (ECMAScript).\<close>

definition DayFromYear :: "int \<Rightarrow> int" where
  "DayFromYear y =
     365 * (y - 1970) + (y - 1969) div 4 - (y - 1901) div 100 + (y - 1601) div 400"

definition DaysBeforeMonth :: "int \<Rightarrow> int \<Rightarrow> int" where
  "DaysBeforeMonth y m =
     (let l = (if InLeapYear y then 1 else 0) in
      if m \<le> 0 then 0 else if m = 1 then 31 else if m = 2 then 59 + l
      else if m = 3 then 90 + l else if m = 4 then 120 + l else if m = 5 then 151 + l
      else if m = 6 then 181 + l else if m = 7 then 212 + l else if m = 8 then 243 + l
      else if m = 9 then 273 + l else if m = 10 then 304 + l else 334 + l)"

text \<open>
  A day-of-month outside its month is carried into the neighbouring months, which is what
  \<^verbatim>\<open>setDate\<close>, \<^verbatim>\<open>setMonth\<close> and \<^verbatim>\<open>setFullYear\<close> do: the 31st of a 30-day month is the 1st of
  the next one, day 0 is the last day of the month before.
\<close>

function carry_days :: "int \<Rightarrow> int \<Rightarrow> int \<Rightarrow> int \<times> int \<times> int" where
  "carry_days y m d =
     (if d < 1 then
        (if m = 0 then carry_days (y - 1) 11 (d + DaysInMonth (y - 1) 11)
         else carry_days y (m - 1) (d + DaysInMonth y (m - 1)))
      else if DaysInMonth y m < d then
        (if m = 11 then carry_days (y + 1) 0 (d - DaysInMonth y m)
         else carry_days y (m + 1) (d - DaysInMonth y m))
      else (y, m, d))"
  by pat_completeness auto
termination
  by (relation "measure (\<lambda>(y, m, d). if d < 1 then nat (1 - d) + 31 else nat d)")
     (auto simp: DaysInMonth_def)

declare carry_days.simps [simp del]

definition MakeDay :: "int \<Rightarrow> int \<Rightarrow> int \<Rightarrow> int \<times> int \<times> int" where
  "MakeDay y m d = carry_days (y + m div 12) (m mod 12) d"

definition withDay :: "jsdate \<Rightarrow> int \<times> int \<times> int \<Rightarrow> jsdate" where
  "withDay t p = (case p of (y, m, d) \<Rightarrow> t\<lparr>getFullYear := y, getMonth := m, getDate := d\<rparr>)"

definition setDate :: "jsdate \<Rightarrow> int \<Rightarrow> jsdate" where
  "setDate t n = withDay t (MakeDay (getFullYear t) (getMonth t) n)"

definition setMonth :: "jsdate \<Rightarrow> int \<Rightarrow> jsdate" where
  "setMonth t n = withDay t (MakeDay (getFullYear t) n (getDate t))"

definition setFullYear :: "jsdate \<Rightarrow> int \<Rightarrow> jsdate" where
  "setFullYear t y = withDay t (MakeDay y (getMonth t) (getDate t))"

text \<open>
  \<^verbatim>\<open>setHours(h, m, s, ms)\<close>; the shorter calls of the source pass the date's own minutes or
  seconds for the arguments they leave out. Hours beyond 23 run into the next day.
\<close>

definition setHours :: "jsdate \<Rightarrow> int \<Rightarrow> int \<Rightarrow> int \<Rightarrow> jsdate" where
  "setHours t h mi sms =
     (let tot = h * 3600000 + mi * 60000 + sms; r = tot mod 86400000
      in (withDay t (MakeDay (getFullYear t) (getMonth t) (getDate t + tot div 86400000)))
           \<lparr>getHours := r div 3600000, getMinutes := (r mod 3600000) div 60000,
            getSecMs := r mod 60000\<rparr>)"

text \<open>Day number of the first day of month \<open>m\<close> of year \<open>y\<close>.\<close>

definition month_start :: "int \<Rightarrow> int \<Rightarrow> int" where
  "month_start y m = DayFromYear y + DaysBeforeMonth y m"

definition Day :: "jsdate \<Rightarrow> int" where
  "Day t = month_start (getFullYear t) (getMonth t) + getDate t - 1"

definition getTime :: "jsdate \<Rightarrow> int" where
  "getTime t = Day t * 86400000 + getHours t * 3600000 + getMinutes t * 60000 + getSecMs t"

text \<open>Weekday, 0 for Sunday; 1970-01-01 was a Thursday.\<close>

definition getDay :: "jsdate \<Rightarrow> int" where
  "getDay t = (Day t + 4) mod 7"

text \<open>The dates a \<^verbatim>\<open>Date\<close> object can show: every field inside its calendar range.\<close>

definition valid_date :: "jsdate \<Rightarrow> bool" where
  "valid_date t \<longleftrightarrow>
     0 \<le> getMonth t \<and> getMonth t \<le> 11 \<and>
     1 \<le> getDate t \<and> getDate t \<le> DaysInMonth (getFullYear t) (getMonth t) \<and>
     0 \<le> getHours t \<and> getHours t \<le> 23 \<and> 0 \<le> getMinutes t \<and> getMinutes t \<le> 59 \<and>
     0 \<le> getSecMs t \<and> getSecMs t \<le> 59999"


text \<open>Two dates that show the same time of day.\<close>

definition sameClock :: "jsdate \<Rightarrow> jsdate \<Rightarrow> bool" where
  "sameClock a b \<longleftrightarrow>
     getHours a = getHours b \<and> getMinutes a = getMinutes b \<and> getSecMs a = getSecMs b"


text \<open>
  The instant of a date, in milliseconds of UTC since the epoch: \<open>tz\<close> is what
  \<^verbatim>\<open>getTimezoneOffset()\<close> returns, the minutes by which UTC is ahead of the server's local time.
  It is the instant \<^verbatim>\<open>toISOString()\<close> prints.
\<close>

definition toUTC :: "int \<Rightarrow> jsdate \<Rightarrow> int" where
  "toUTC tz t = getTime t + tz * 60000"

text \<open>
  A \<^verbatim>\<open>Date\<close> object holds an instant at most 8.64e15 milliseconds from the epoch; a constructor
  or setter that would leave this range yields an Invalid Date, here \<open>None\<close>.
\<close>

definition TimeClip :: "int \<Rightarrow> jsdate \<Rightarrow> jsdate option" where
  "TimeClip tz t = (if \<bar>toUTC tz t\<bar> \<le> 8640000000000000 then Some t else None)"
section \<open>Recurrence rules and generated classes\<close>

text \<open>
  \<open>regras\<close> is the JSON rule object of an \<^verbatim>\<open>agendamentoRecorrente\<close>; \<open>weekDays\<close> is \<open>None\<close> when
  the key is absent. An empty array is still truthy in JavaScript, hence \<open>Some []\<close> differs
  from \<open>None\<close>.
\<close>

record regras =
  rtype :: string
  interval :: int
  weekDays :: "string list option"

record agendamento_data =
  ag_professorId :: int
  ag_studentId :: int
  ag_location :: string
  ag_value :: int
  ag_service :: string
  ag_notes :: string
  ag_regras :: regras
  ag_startDate :: jsdate
  ag_endDate :: "jsdate option"
  ag_maxOccurrences :: "int option"
  ag_active :: bool

record agendamento = agendamento_data +
  ag_id :: int

record aula =
  agendamentoRecorrenteId :: "int option"
  professorId :: int
  studentId :: int
  startTime :: jsdate
  endTime :: jsdate
  location :: string
  "value" :: int
  service :: string
  "notes" :: string
  status :: string
  isModified :: bool
  originalStartTime :: "jsdate option"
  originalEndTime :: "jsdate option"

record stored_aula = aula +
  aula_id :: int

subsection \<open>\<^verbatim>\<open>generateRecurrentClasses\<close> of the scheduling controller\<close>

definition dayNames :: "string list" where
  "dayNames = [''sunday'', ''monday'', ''tuesday'', ''wednesday'', ''thursday'', ''friday'',
               ''saturday'']"

text \<open>The \<^verbatim>\<open>switch\<close> that moves the cursor after a class has been pushed.\<close>

definition nextOccurrence :: "regras \<Rightarrow> jsdate \<Rightarrow> jsdate" where
  "nextOccurrence r currentDate =
     (if rtype r = ''daily'' then setDate currentDate (getDate currentDate + interval r)
      else if rtype r = ''weekly'' then setDate currentDate (getDate currentDate + 7 * interval r)
      else if rtype r = ''monthly'' then setMonth currentDate (getMonth currentDate + interval r)
      else if rtype r = ''yearly''
        then setFullYear currentDate (getFullYear currentDate + interval r)
      else setDate currentDate (getDate currentDate + 1))"

text \<open>
  The class pushed for the cursor date: the start takes hours and minutes of the rule's start
  date, the end those of the start date one hour later (\<^verbatim>\<open>setHours(getHours() + 1)\<close>).
\<close>

definition newAula :: "agendamento \<Rightarrow> jsdate \<Rightarrow> aula" where
  "newAula agendamento currentDate =
     (let startDate = ag_startDate agendamento;
          originalStart = startDate;
          originalEnd = setHours startDate (getHours originalStart + 1) (getMinutes startDate)
                          (getSecMs startDate);
          startT = setHours currentDate (getHours originalStart) (getMinutes originalStart)
                          (getSecMs currentDate);
          endT = setHours currentDate (getHours originalEnd) (getMinutes originalEnd)
                          (getSecMs currentDate)
      in \<lparr>agendamentoRecorrenteId = Some (ag_id agendamento),
          professorId = ag_professorId agendamento, studentId = ag_studentId agendamento,
          startTime = startT, endTime = endT, location = ag_location agendamento,
          value = ag_value agendamento, service = ag_service agendamento,
          notes = ag_notes agendamento, status = ''agendado'', isModified = False,
          originalStartTime = None, originalEndTime = None\<rparr>)"

text \<open>The weekday test that makes the loop step one day and \<^verbatim>\<open>continue\<close>.\<close>

definition skipsDay :: "regras \<Rightarrow> jsdate \<Rightarrow> bool" where
  "skipsDay r currentDate \<longleftrightarrow>
     rtype r = ''weekly'' \<and>
     (case weekDays r of None \<Rightarrow> False
      | Some ds \<Rightarrow> dayNames ! nat (getDay currentDate) \<notin> set ds)"

definition maxOccurrencesReached :: "int option \<Rightarrow> int \<Rightarrow> bool" where
  "maxOccurrencesReached maxOccurrences n \<longleftrightarrow>
     (case maxOccurrences of None \<Rightarrow> False | Some k \<Rightarrow> k \<noteq> 0 \<and> k \<le> n)"

definition afterEnd :: "jsdate option \<Rightarrow> jsdate \<Rightarrow> bool" where
  "afterEnd endDate currentDate \<longleftrightarrow>
     (case endDate of None \<Rightarrow> False | Some e \<Rightarrow> getTime e < getTime currentDate)"

text \<open>
  The \<^verbatim>\<open>while (currentDate <= maxDate)\<close> loop. Nothing in the loop bounds the number of
  rounds, so the function is partial: \<open>None\<close> stands for a loop that does not return.
\<close>

partial_function (option) gen_loop ::
  "agendamento \<Rightarrow> jsdate \<Rightarrow> jsdate \<Rightarrow> int \<Rightarrow> aula list \<Rightarrow> aula list option" where
  "gen_loop agendamento maxDate currentDate occurrenceCount aulas =
     (if \<not> getTime currentDate \<le> getTime maxDate then Some aulas
      else if maxOccurrencesReached (ag_maxOccurrences agendamento) occurrenceCount
        then Some aulas
      else if afterEnd (ag_endDate agendamento) currentDate then Some aulas
      else if skipsDay (ag_regras agendamento) currentDate
        then gen_loop agendamento maxDate (setDate currentDate (getDate currentDate + 1))
               occurrenceCount aulas
      else gen_loop agendamento maxDate (nextOccurrence (ag_regras agendamento) currentDate)
             (occurrenceCount + 1) (aulas @ [newAula agendamento currentDate]))"

declare gen_loop.simps [code]

text \<open>\<open>now\<close> is the value of \<^verbatim>\<open>new Date()\<close> when the function runs.\<close>

definition generateRecurrentClasses :: "jsdate \<Rightarrow> agendamento \<Rightarrow> aula list option" where
  "generateRecurrentClasses now agendamento =
     (let maxDate = setMonth now (getMonth now + 6)
      in gen_loop agendamento maxDate (ag_startDate agendamento) 0 [])"

text \<open>The days from the cursor to the horizon, both ends counted; none once it is passed.\<close>

definition daysToHorizon :: "jsdate \<Rightarrow> jsdate \<Rightarrow> nat" where
  "daysToHorizon maxDate currentDate =
     nat ((getTime maxDate - getTime currentDate + 86400000) div 86400000)"

subsection \<open>The inline expansion of \<^verbatim>\<open>POST /api/sessions\<close>\<close>

record session_request =
  rq_startTime :: jsdate
  rq_endTime :: jsdate
  recurrenceType :: string
  recurrenceInterval :: int
  recurrenceWeekDays :: "string list option"
  recurrenceEndType :: string
  recurrenceEndDate :: "jsdate option"
  recurrenceEndCount :: "int option"

record session_slot =
  slot_startTime :: jsdate
  slot_endTime :: jsdate
  isParent :: bool

definition dayNamesPt :: "string list" where
  "dayNamesPt = [''domingo'', ''segunda'', ''terca'', ''quarta'', ''quinta'', ''sexta'',
                 ''sabado'']"

definition slotAt :: "session_request \<Rightarrow> jsdate \<Rightarrow> session_slot list \<Rightarrow> session_slot" where
  "slotAt rq currentDate sessions =
     \<lparr>slot_startTime = setHours currentDate (getHours (rq_startTime rq))
                         (getMinutes (rq_startTime rq)) 0,
      slot_endTime = setHours currentDate (getHours (rq_endTime rq))
                         (getMinutes (rq_endTime rq)) 0,
      isParent = (length sessions = 0)\<rparr>"

text \<open>One round of the loop body: the new cursor and the sessions pushed so far.\<close>

definition sessions_step ::
  "session_request \<Rightarrow> jsdate \<Rightarrow> session_slot list \<Rightarrow> jsdate \<times> session_slot list" where
  "sessions_step rq currentDate sessions =
     (if recurrenceType rq = ''weekly'' then
        (let sessions' =
               (if (case recurrenceWeekDays rq of None \<Rightarrow> False
                    | Some ds \<Rightarrow> dayNamesPt ! nat (getDay currentDate) \<in> set ds)
                then sessions @ [slotAt rq currentDate sessions] else sessions);
             next = setDate currentDate (getDate currentDate + 1)
         in (if getDay next = getDay (rq_startTime rq)
             then setDate next (getDate next + 7 * (recurrenceInterval rq - 1)) else next,
             sessions'))
      else if recurrenceType rq = ''daily'' then
        (setDate currentDate (getDate currentDate + recurrenceInterval rq),
         sessions @ [slotAt rq currentDate sessions])
      else if recurrenceType rq = ''monthly'' then
        (setMonth currentDate (getMonth currentDate + recurrenceInterval rq),
         sessions @ [slotAt rq currentDate sessions])
      else (currentDate, sessions))"

function sessions_loop ::
  "session_request \<Rightarrow> int option \<Rightarrow> jsdate option \<Rightarrow> jsdate \<Rightarrow> int \<Rightarrow> session_slot list
     \<Rightarrow> session_slot list" where
  "sessions_loop rq maxSessions endDate currentDate sessionCount sessions =
     (if \<not> (case maxSessions of None \<Rightarrow> False | Some n \<Rightarrow> sessionCount < n) then sessions
      else if afterEnd endDate currentDate then sessions
      else (case sessions_step rq currentDate sessions of
              (currentDate', sessions') \<Rightarrow>
                if sessionCount + 1 > 365 then sessions'
                else sessions_loop rq maxSessions endDate currentDate' (sessionCount + 1)
                       sessions'))"
  by pat_completeness auto
termination
  by (relation "measure (\<lambda>(rq, maxSessions, endDate, currentDate, sessionCount, sessions).
        nat (366 - sessionCount))") auto

declare sessions_loop.simps [simp del]

text \<open>
  The sessions generated for a request whose \<open>recurrenceType\<close> is not \<^verbatim>\<open>'none'\<close>. A missing
  \<open>recurrenceEndCount\<close> compares false with every counter, a missing end date never ends
  the loop.
\<close>

definition generateSessions :: "session_request \<Rightarrow> session_slot list" where
  "generateSessions rq =
     sessions_loop rq
       (if recurrenceEndType rq = ''count'' then recurrenceEndCount rq else Some 100)
       (if recurrenceEndType rq = ''date'' then recurrenceEndDate rq else None)
       (rq_startTime rq) 0 []"

subsection \<open>The expansion as the specification words it\<close>

text \<open>The ceiling of the specification: an expansion returns, with 365 occurrences at most.\<close>

definition spec_within_ceiling :: "aula list option \<Rightarrow> bool" where
  "spec_within_ceiling r \<longleftrightarrow> (case r of None \<Rightarrow> False | Some aulas \<Rightarrow> length aulas \<le> 365)"

text \<open>
  The date the specification gives a monthly series in the month \<open>m\<close> of year \<open>y\<close>: the
  anchor's day of the month, or the last day of a month that is shorter.
\<close>

definition spec_monthly_date :: "int \<Rightarrow> int \<Rightarrow> int \<Rightarrow> int \<times> int \<times> int" where
  "spec_monthly_date y m anchorDay = (y, m, min anchorDay (DaysInMonth y m))"


text \<open>The month \<open>k\<close> months after the cursor's, and the month that follows a month.\<close>

definition targetMonth :: "jsdate \<Rightarrow> int \<Rightarrow> int \<times> int" where
  "targetMonth t k = (getFullYear t + (getMonth t + k) div 12, (getMonth t + k) mod 12)"

definition monthAfter :: "int \<times> int \<Rightarrow> int \<times> int" where
  "monthAfter p = (case p of (y, m) \<Rightarrow> if m = 11 then (y + 1, 0) else (y, m + 1))"

section \<open>\<^verbatim>\<open>POST /api/sessions/check-conflicts\<close>\<close>

text \<open>
  A row of the \<^verbatim>\<open>sessions\<close> table. Its timestamps are shown as the database holds them, on
  the clock of UTC: \<open>getTime\<close> of such a timestamp is its instant.
\<close>

record session_row =
  s_id :: int
  s_trainer_id :: int
  s_lead_id :: int
  s_status :: string
  s_start_time :: jsdate
  s_end_time :: jsdate

record lead_row =
  l_id :: int
  l_name :: string

text \<open>
  The request body. A key that is absent is \<open>None\<close>; \<open>date\<close> is a calendar day (year,
  month from 0, day), \<open>startTime\<close> and \<open>endTime\<close> are hours and minutes: the strings of a
  body are taken to parse.
\<close>

record conflict_request =
  cr_trainerId :: "int option"
  cr_date :: "(int \<times> int \<times> int) option"
  cr_startTime :: "(int \<times> int) option"
  cr_endTime :: "(int \<times> int) option"

record suggested_time =
  sg_start :: "int \<times> int"
  sg_end :: "int \<times> int"

datatype conflict_item =
    trainer_busy session_row string
  | suggestion "suggested_time list"

datatype conflicts_response =
    BadRequest400
  | Conflicts "conflict_item list"
  | ServerError500

text \<open>
  \<^verbatim>\<open>new Date(`${date}T${time}`)\<close> reads date and time on the server's local clock, seconds at
  zero. These are its local fields.
\<close>

definition dateTime :: "int \<times> int \<times> int \<Rightarrow> int \<times> int \<Rightarrow> jsdate" where
  "dateTime date time =
     (case date of (y, m, d) \<Rightarrow> case time of (h, mi) \<Rightarrow>
        \<lparr>getFullYear = y, getMonth = m, getDate = d, getHours = h, getMinutes = mi,
         getSecMs = 0\<rparr>)"

text \<open>\<^verbatim>\<open>new Date(ms)\<close> for an instant: an Invalid Date outside the range of instants.\<close>

definition newDate :: "int \<Rightarrow> int option" where
  "newDate ms = (if \<bar>ms\<bar> \<le> 8640000000000000 then Some ms else None)"

text \<open>\<^verbatim>\<open>DATE(s.start_time)\<close>: the calendar day the stored timestamp shows.\<close>

definition sqlDATE :: "jsdate \<Rightarrow> int \<times> int \<times> int" where
  "sqlDATE t = (getFullYear t, getMonth t, getDate t)"

definition between :: "int \<Rightarrow> int \<Rightarrow> int \<Rightarrow> bool" where
  "between x lo hi \<longleftrightarrow> lo \<le> x \<and> x \<le> hi"

text \<open>
  The \<^verbatim>\<open>WHERE\<close> clause shared by the two queries. \<open>lo\<close> and \<open>hi\<close> bound the two
  \<^verbatim>\<open>BETWEEN\<close> tests, \<open>a\<close> and \<open>b\<close> are the window of the third disjunct: all four are the
  instants the handler passes as \<^verbatim>\<open>toISOString()\<close> texts. \<open>date\<close> is the \<^verbatim>\<open>date\<close> string of the
  body, a day of the server's local calendar, which the query compares with the day of the
  stored timestamp.
\<close>

definition whereClause ::
  "int \<Rightarrow> int \<times> int \<times> int \<Rightarrow> int \<Rightarrow> int \<Rightarrow> int \<Rightarrow> int \<Rightarrow> session_row \<Rightarrow> bool" where
  "whereClause trainerId date lo hi a b s \<longleftrightarrow>
     s_trainer_id s = trainerId \<and> s_status s = ''agendado'' \<and>
     sqlDATE (s_start_time s) = date \<and>
     (between (getTime (s_start_time s)) lo hi \<or> between (getTime (s_end_time s)) lo hi \<or>
      (getTime (s_start_time s) \<le> a \<and> b \<le> getTime (s_end_time s)))"

text \<open>
  \<^verbatim>\<open>db\<close> is the handle \<^verbatim>\<open>src/server/db.ts\<close> builds with \<^verbatim>\<open>drizzle-orm/postgres-js\<close>. Its
  \<^verbatim>\<open>execute\<close> resolves to the result of the driver, which is the array of the rows itself. An
  array has no property \<^verbatim>\<open>rows\<close>: \<^verbatim>\<open>result.rows\<close> is \<^verbatim>\<open>undefined\<close>, here \<open>None\<close>, and reading
  \<^verbatim>\<open>.length\<close> or \<^verbatim>\<open>[0]\<close> of it raises a \<^verbatim>\<open>TypeError\<close>.
\<close>

datatype 'r row_list = RowList "'r list"

definition execute :: "'r list \<Rightarrow> 'r row_list" where
  "execute selected = RowList selected"

definition rows :: "'r row_list \<Rightarrow> 'r list option" where
  "rows result = (case result of RowList selected \<Rightarrow> None)"

text \<open>The rows the first query selects, with its join on the leads table, in table order.\<close>

definition conflictRows ::
  "session_row list \<Rightarrow> lead_row list \<Rightarrow> int \<Rightarrow> int \<times> int \<times> int \<Rightarrow> int \<Rightarrow> int \<Rightarrow> int \<Rightarrow> int
     \<Rightarrow> (session_row \<times> string) list" where
  "conflictRows sessions leads trainerId date toleranceStart toleranceEnd startDateTime
       endDateTime =
     concat (map (\<lambda>s. map (\<lambda>l. (s, l_name l)) (filter (\<lambda>l. s_lead_id s = l_id l) leads))
       (filter (whereClause trainerId date toleranceStart toleranceEnd startDateTime
                  endDateTime) sessions))"

definition timeSlots :: "(int \<times> int) list" where
  "timeSlots =
     [(6, 0), (6, 30), (7, 0), (7, 30), (8, 0), (8, 30),
      (9, 0), (9, 30), (10, 0), (10, 30), (11, 0), (11, 30),
      (12, 0), (12, 30), (13, 0), (13, 30), (14, 0), (14, 30),
      (15, 0), (15, 30), (16, 0), (16, 30), (17, 0), (17, 30),
      (18, 0), (18, 30), (19, 0), (19, 30), (20, 0), (20, 30)]"

text \<open>The \<^verbatim>\<open>COUNT(*)\<close> of the second query for a slot from instant \<open>a\<close> to instant \<open>b\<close>.\<close>

definition slotConflictCount ::
  "session_row list \<Rightarrow> int \<Rightarrow> int \<times> int \<times> int \<Rightarrow> int \<Rightarrow> int \<Rightarrow> nat" where
  "slotConflictCount sessions trainerId date a b =
     length (filter (whereClause trainerId date a b a b) sessions)"

text \<open>Hours and minutes an instant shows on the server's local clock.\<close>

definition toLocaleTime :: "int \<Rightarrow> int \<Rightarrow> int \<times> int" where
  "toLocaleTime tz ms =
     (let local = (ms - tz * 60000) mod 86400000
      in (local div 3600000, (local mod 3600000) div 60000))"

text \<open>
  The loop over \<^verbatim>\<open>timeSlots.slice(0, 5)\<close>: a slot is pushed when the count of its query is zero.
  \<open>duration\<close> is \<^verbatim>\<open>endDateTime.getTime() - startDateTime.getTime()\<close>. The result is \<open>None\<close>
  when a round raises: on an Invalid Date, which \<^verbatim>\<open>toISOString()\<close> refuses, or on the
  \<^verbatim>\<open>rows\<close> of the result.
\<close>

fun suggestedTimes ::
  "int \<Rightarrow> session_row list \<Rightarrow> int \<Rightarrow> int \<times> int \<times> int \<Rightarrow> int \<Rightarrow> (int \<times> int) list
     \<Rightarrow> suggested_time list \<Rightarrow> suggested_time list option" where
  "suggestedTimes tz sessions trainerId date duration [] suggested = Some suggested"
| "suggestedTimes tz sessions trainerId date duration (slot # slots) suggested =
     (case TimeClip tz (dateTime date slot) of
        None \<Rightarrow> None
      | Some slotStartDate \<Rightarrow>
          (case newDate (toUTC tz slotStartDate + duration) of
             None \<Rightarrow> None
           | Some slotEnd \<Rightarrow>
               (case rows (execute [slotConflictCount sessions trainerId date
                                      (toUTC tz slotStartDate) slotEnd]) of
                  None \<Rightarrow> None
                | Some counted \<Rightarrow>
                    suggestedTimes tz sessions trainerId date duration slots
                      (if hd counted = 0
                       then suggested @ [\<lparr>sg_start = slot, sg_end = toLocaleTime tz slotEnd\<rparr>]
                       else suggested))))"

text \<open>
  The handler. Whatever is raised inside its \<^verbatim>\<open>try\<close> block is answered with status 500 by
  the \<^verbatim>\<open>catch\<close> clause.
\<close>

definition checkConflicts ::
  "int \<Rightarrow> session_row list \<Rightarrow> lead_row list \<Rightarrow> conflict_request \<Rightarrow> conflicts_response" where
  "checkConflicts tz sessions leads body =
     (case (cr_trainerId body, cr_date body, cr_startTime body, cr_endTime body) of
        (Some trainerId, Some date, Some startT, Some endT) \<Rightarrow>
          if trainerId = 0 then BadRequest400
          else
            (case (TimeClip tz (dateTime date startT), TimeClip tz (dateTime date endT)) of
               (Some startDateTime, Some endDateTime) \<Rightarrow>
                 (case (newDate (toUTC tz startDateTime - 15 * 60000),
                        newDate (toUTC tz endDateTime + 15 * 60000)) of
                    (Some toleranceStart, Some toleranceEnd) \<Rightarrow>
                      (let conflictsResult =
                             execute (conflictRows sessions leads trainerId date toleranceStart
                                        toleranceEnd (toUTC tz startDateTime)
                                        (toUTC tz endDateTime))
                       in case rows conflictsResult of
                            None \<Rightarrow> ServerError500
                          | Some selected \<Rightarrow>
                              (let conflicts = map (\<lambda>(s, student_name).
                                                  trainer_busy s student_name) selected
                               in if length conflicts > 0 then
                                    (case suggestedTimes tz sessions trainerId date
                                            (toUTC tz endDateTime - toUTC tz startDateTime)
                                            (take 5 timeSlots) [] of
                                       None \<Rightarrow> ServerError500
                                     | Some suggested \<Rightarrow>
                                         Conflicts
                                           (if length suggested > 0
                                            then conflicts @ [suggestion suggested]
                                            else conflicts))
                                  else Conflicts conflicts))
                  | _ \<Rightarrow> ServerError500)
             | _ \<Rightarrow> ServerError500)
      | _ \<Rightarrow> BadRequest400)"

subsection \<open>The conflict rule as the specification words it\<close>

text \<open>Half-open windows overlap when each starts before the other ends.\<close>

definition spec_overlap :: "int \<Rightarrow> int \<Rightarrow> int \<Rightarrow> int \<Rightarrow> bool" where
  "spec_overlap a1 a2 b1 b2 \<longleftrightarrow> a1 < b2 \<and> b1 < a2"

text \<open>
  The conflict of the specification between a candidate window from instant \<open>a\<close> to instant
  \<open>b\<close> and a session: same trainer, the session not cancelled, and the window padded by the
  tolerance overlaps the session's.
\<close>

definition spec_conflict :: "int \<Rightarrow> int \<Rightarrow> int \<Rightarrow> int \<Rightarrow> session_row \<Rightarrow> bool" where
  "spec_conflict tolerance trainerId a b s \<longleftrightarrow>
     s_trainer_id s = trainerId \<and> s_status s \<noteq> ''cancelado'' \<and>
     spec_overlap (a - tolerance) (b + tolerance) (getTime (s_start_time s))
       (getTime (s_end_time s))"

text \<open>Whether the answer of the handler names session \<open>s\<close> as a conflict.\<close>

definition reportsConflict :: "conflicts_response \<Rightarrow> session_row \<Rightarrow> bool" where
  "reportsConflict r s \<longleftrightarrow>
     (case r of
        Conflicts cs \<Rightarrow>
          \<exists>c \<in> set cs. case c of trainer_busy s' n \<Rightarrow> s' = s | suggestion x \<Rightarrow> False
      | _ \<Rightarrow> False)"

text \<open>The suggested times of an answer, empty when it carries none.\<close>

definition suggestionsOf :: "conflicts_response \<Rightarrow> suggested_time list" where
  "suggestionsOf r =
     (case r of
        Conflicts cs \<Rightarrow>
          concat (map (\<lambda>c. case c of trainer_busy s n \<Rightarrow> [] | suggestion x \<Rightarrow> x) cs)
      | _ \<Rightarrow> [])"
section \<open>The store and the controller's handlers\<close>

record user_row =
  u_id :: int
  u_role :: string

record store =
  st_users :: "user_row list"
  st_leads :: "lead_row list"
  st_agendamentos :: "agendamento list"
  st_aulas :: "stored_aula list"

text \<open>
  Modelled from the spec: the \<^verbatim>\<open>storage\<close> module the controller imports is not among the
  sources. The specification describes it as a durable store of session-instance and
  recurrence-rule records; the lookups below return the record with the given id, the
  insertions append records under ids that are not in use, and an update overwrites exactly
  the fields the change set carries.
\<close>

definition getUserById :: "store \<Rightarrow> int \<Rightarrow> user_row option" where
  "getUserById st i = find (\<lambda>u. u_id u = i) (st_users st)"

definition getLeadById :: "store \<Rightarrow> int \<Rightarrow> lead_row option" where
  "getLeadById st i = find (\<lambda>l. l_id l = i) (st_leads st)"


definition freshId :: "int list \<Rightarrow> int" where
  "freshId ids = foldr max ids 0 + 1"

definition createAgendamentoRecorrente :: "store \<Rightarrow> agendamento_data \<Rightarrow> agendamento \<times> store" where
  "createAgendamentoRecorrente st d =
     (let ag = agendamento_data.extend d
                 (agendamento.fields (freshId (map ag_id (st_agendamentos st))))
      in (ag, st\<lparr>st_agendamentos := st_agendamentos st @ [ag]\<rparr>))"

fun storeAulas :: "int \<Rightarrow> aula list \<Rightarrow> stored_aula list" where
  "storeAulas n [] = []"
| "storeAulas n (a # as) = aula.extend a (stored_aula.fields n) # storeAulas (n + 1) as"

definition createMultipleAulas :: "store \<Rightarrow> aula list \<Rightarrow> stored_aula list \<times> store" where
  "createMultipleAulas st as =
     (let created = storeAulas (freshId (map aula_id (st_aulas st))) as
      in (created, st\<lparr>st_aulas := st_aulas st @ created\<rparr>))"

text \<open>
  The change set of an update: the partial validation schema makes every column optional,
  and the handler itself writes \<open>isModified\<close> and the two original times into it.
\<close>

record aula_update =
  up_professorId :: "int option"
  up_studentId :: "int option"
  up_startTime :: "jsdate option"
  up_endTime :: "jsdate option"
  up_location :: "string option"
  up_value :: "int option"
  up_service :: "string option"
  up_notes :: "string option"
  up_status :: "string option"
  up_isModified :: "bool option"
  up_originalStartTime :: "jsdate option"
  up_originalEndTime :: "jsdate option"

definition orElse :: "'a option \<Rightarrow> 'a \<Rightarrow> 'a" where
  "orElse x d = (case x of None \<Rightarrow> d | Some v \<Rightarrow> v)"

definition applyUpdate :: "aula_update \<Rightarrow> stored_aula \<Rightarrow> stored_aula" where
  "applyUpdate c a =
     a\<lparr>professorId := orElse (up_professorId c) (professorId a),
       studentId := orElse (up_studentId c) (studentId a),
       startTime := orElse (up_startTime c) (startTime a),
       endTime := orElse (up_endTime c) (endTime a),
       location := orElse (up_location c) (location a),
       value := orElse (up_value c) (value a),
       service := orElse (up_service c) (service a),
       notes := orElse (up_notes c) (notes a),
       status := orElse (up_status c) (status a),
       isModified := orElse (up_isModified c) (isModified a),
       originalStartTime :=
         (case up_originalStartTime c of None \<Rightarrow> originalStartTime a | Some t \<Rightarrow> Some t),
       originalEndTime :=
         (case up_originalEndTime c of None \<Rightarrow> originalEndTime a | Some t \<Rightarrow> Some t)\<rparr>"


text \<open>
  Modelled from the spec: \<^verbatim>\<open>storage.checkSchedulingConflicts\<close> is not among the sources either.
  It is the conflict rule of the specification over the stored classes of the professor: the
  candidate window padded by the tolerance of 15 minutes, cancelled classes ignored, the class
  whose id is excluded left out; the first colliding class is the answer. The handlers below
  take the checker as an argument, this one is an instance of it.
\<close>

definition checkSchedulingConflicts ::
  "store \<Rightarrow> int \<Rightarrow> int \<Rightarrow> jsdate \<Rightarrow> jsdate \<Rightarrow> int option \<Rightarrow> stored_aula option" where
  "checkSchedulingConflicts st profId studId startT endT excludeAulaId =
     find (\<lambda>a. Some (aula_id a) \<noteq> excludeAulaId \<and> professorId a = profId \<and>
                status a \<noteq> ''cancelado'' \<and>
                spec_overlap (getTime startT - 15 * 60000) (getTime endT + 15 * 60000)
                  (getTime (startTime a)) (getTime (endTime a)))
       (st_aulas st)"

type_synonym conflict_checker =
  "store \<Rightarrow> int \<Rightarrow> int \<Rightarrow> jsdate \<Rightarrow> jsdate \<Rightarrow> int option \<Rightarrow> stored_aula option"

subsection \<open>\<^verbatim>\<open>createRecurrentScheduling\<close>\<close>

datatype create_response =
    Invalid400 "string list"
  | ProfessorNotFound400
  | StudentNotFound400
  | Conflict409 "(jsdate \<times> stored_aula) list"
  | Created201 agendamento "stored_aula list"

text \<open>The loop that collects date and conflict of every class the checker rejects.\<close>

definition batchConflicts ::
  "conflict_checker \<Rightarrow> store \<Rightarrow> aula list \<Rightarrow> (jsdate \<times> stored_aula) list" where
  "batchConflicts chk st aulas =
     concat (map (\<lambda>aula.
        case chk st (professorId aula) (studentId aula) (startTime aula) (endTime aula) None of
          None \<Rightarrow> [] | Some hasConflict \<Rightarrow> [(startTime aula, hasConflict)]) aulas)"

text \<open>
  \<open>parsed\<close> is what the validation schema (not among the sources) makes of the request body:
  its issues, or the validated data. The result is \<open>None\<close> when the expansion does not return.
\<close>

definition createRecurrentScheduling ::
  "conflict_checker \<Rightarrow> jsdate \<Rightarrow> store \<Rightarrow> string list + agendamento_data
     \<Rightarrow> (create_response \<times> store) option" where
  "createRecurrentScheduling chk now st parsed =
     (case parsed of
        Inl issues \<Rightarrow> Some (Invalid400 issues, st)
      | Inr validatedData \<Rightarrow>
          (case getUserById st (ag_professorId validatedData) of
             None \<Rightarrow> Some (ProfessorNotFound400, st)
           | Some professor \<Rightarrow>
               if u_role professor \<noteq> ''professor'' then Some (ProfessorNotFound400, st)
               else
                 (case getLeadById st (ag_studentId validatedData) of
                    None \<Rightarrow> Some (StudentNotFound400, st)
                  | Some student \<Rightarrow>
                      (case createAgendamentoRecorrente st validatedData of
                         (agendamento, st1) \<Rightarrow>
                           (case generateRecurrentClasses now agendamento of
                              None \<Rightarrow> None
                            | Some aulas \<Rightarrow>
                                (let conflicts = batchConflicts chk st1 aulas
                                 in if length conflicts > 0
                                    then Some (Conflict409 conflicts, st1)
                                    else (case createMultipleAulas st1 aulas of
                                            (createdAulas, st2) \<Rightarrow>
                                              Some (Created201 agendamento createdAulas,
                                                    st2))))))))"

subsection \<open>\<^verbatim>\<open>updateClass\<close>\<close>







section \<open>The recurrence handler of the route file\<close>

subsection \<open>\<^verbatim>\<open>generateClassesFromRecurrence\<close>\<close>

text \<open>
  The generator of the route file keeps \<^verbatim>\<open>Date\<close> objects in the classes it pushes, so a class
  can hold an Invalid Date; the controller's generator prints its dates before it pushes them.
\<close>

record new_class =
  cl_agendamentoRecorrenteId :: int
  cl_professorId :: int
  cl_studentId :: int
  cl_startTime :: "jsdate option"
  cl_endTime :: "jsdate option"
  cl_location :: string
  cl_value :: int
  cl_service :: string
  cl_notes :: string
  cl_status :: string
  cl_isModified :: bool

text \<open>
  The \<^verbatim>\<open>switch\<close> that moves the cursor. Its \<^verbatim>\<open>default\<close> branch is only reached for a type
  other than the four named ones; the test \<^verbatim>\<open>regras.type === 'weekly'\<close> in it is then false and
  its \<^verbatim>\<open>break\<close> leaves the \<^verbatim>\<open>switch\<close>, not the loop: the cursor stays where it is. A setter
  called on an Invalid Date leaves it invalid.
\<close>

definition nextClassDate :: "int \<Rightarrow> regras \<Rightarrow> jsdate option \<Rightarrow> jsdate option" where
  "nextClassDate tz r currentDate =
     (case currentDate of
        None \<Rightarrow> None
      | Some d \<Rightarrow>
          if rtype r = ''daily'' then TimeClip tz (setDate d (getDate d + interval r))
          else if rtype r = ''weekly'' then TimeClip tz (setDate d (getDate d + 7 * interval r))
          else if rtype r = ''monthly'' then TimeClip tz (setMonth d (getMonth d + interval r))
          else if rtype r = ''yearly''
            then TimeClip tz (setFullYear d (getFullYear d + interval r))
          else Some d)"

text \<open>The class pushed for the cursor: it ends where \<^verbatim>\<open>setHours(getHours() + 1)\<close> leads.\<close>

definition newClass :: "int \<Rightarrow> agendamento \<Rightarrow> jsdate option \<Rightarrow> new_class" where
  "newClass tz agendamento currentDate =
     (let classEndTime =
            (case currentDate of
               None \<Rightarrow> None
             | Some d \<Rightarrow> TimeClip tz (setHours d (getHours d + 1) (getMinutes d) (getSecMs d)))
      in \<lparr>cl_agendamentoRecorrenteId = ag_id agendamento,
          cl_professorId = ag_professorId agendamento, cl_studentId = ag_studentId agendamento,
          cl_startTime = currentDate, cl_endTime = classEndTime,
          cl_location = ag_location agendamento, cl_value = ag_value agendamento,
          cl_service = ag_service agendamento, cl_notes = ag_notes agendamento,
          cl_status = ''agendado'', cl_isModified = False\<rparr>)"

text \<open>
  \<^verbatim>\<open>endDateTime && currentDate > endDateTime\<close>: \<open>endDateTime\<close> is \<open>None\<close> for \<^verbatim>\<open>null\<close>, and a
  comparison with an Invalid Date is false.
\<close>

definition pastEnd :: "jsdate option option \<Rightarrow> jsdate option \<Rightarrow> bool" where
  "pastEnd endDateTime currentDate \<longleftrightarrow>
     (case (endDateTime, currentDate) of
        (Some (Some e), Some d) \<Rightarrow> getTime e < getTime d
      | _ \<Rightarrow> False)"

function classes_loop ::
  "int \<Rightarrow> agendamento \<Rightarrow> jsdate option option \<Rightarrow> jsdate option \<Rightarrow> int \<Rightarrow> new_class list
     \<Rightarrow> new_class list" where
  "classes_loop tz agendamento endDateTime currentDate count classes =
     (if maxOccurrencesReached (ag_maxOccurrences agendamento) count then classes
      else if pastEnd endDateTime currentDate then classes
      else if count > 100 then classes
      else classes_loop tz agendamento endDateTime
             (nextClassDate tz (ag_regras agendamento) currentDate) (count + 1)
             (classes @ [newClass tz agendamento currentDate]))"
  by pat_completeness auto
termination
  by (relation "measure (\<lambda>(tz, agendamento, endDateTime, currentDate, count, classes).
        nat (101 - count))") auto

declare classes_loop.simps [simp del]

text \<open>
  \<^verbatim>\<open>db.insert(aulas).values(classes)\<close> is one statement: it stores every class of the batch
  under an id that is not in use, or none. The timestamps of a class are passed to the
  database as \<^verbatim>\<open>toISOString()\<close> prints them, which raises on an Invalid Date; \<open>None\<close> is a
  statement that raises.
\<close>

definition classRow :: "new_class \<Rightarrow> aula option" where
  "classRow c =
     (case (cl_startTime c, cl_endTime c) of
        (Some startT, Some endT) \<Rightarrow>
          Some \<lparr>agendamentoRecorrenteId = Some (cl_agendamentoRecorrenteId c),
                professorId = cl_professorId c, studentId = cl_studentId c,
                startTime = startT, endTime = endT, location = cl_location c,
                value = cl_value c, service = cl_service c, notes = cl_notes c,
                status = cl_status c, isModified = cl_isModified c,
                originalStartTime = None, originalEndTime = None\<rparr>
      | _ \<Rightarrow> None)"

definition insertAulas :: "store \<Rightarrow> new_class list \<Rightarrow> store option" where
  "insertAulas st classes =
     (if list_all (\<lambda>c. classRow c \<noteq> None) classes
      then Some (st\<lparr>st_aulas := st_aulas st @
                     storeAulas (freshId (map aula_id (st_aulas st)))
                       (map (\<lambda>c. the (classRow c)) classes)\<rparr>)
      else None)"

text \<open>
  The generator: the classes of the loop, inserted as one batch when there are any. The rule's
  dates come in as local fields and become \<^verbatim>\<open>Date\<close> objects here.
\<close>

definition generateClassesFromRecurrence ::
  "int \<Rightarrow> store \<Rightarrow> agendamento \<Rightarrow> (new_class list \<times> store) option" where
  "generateClassesFromRecurrence tz st agendamento =
     (let currentDate = TimeClip tz (ag_startDate agendamento);
          endDateTime = map_option (TimeClip tz) (ag_endDate agendamento);
          classes = classes_loop tz agendamento endDateTime currentDate 0 []
      in if length classes > 0
         then map_option (\<lambda>st'. (classes, st')) (insertAulas st classes)
         else Some (classes, st))"

subsection \<open>\<^verbatim>\<open>POST /api/new-scheduling/recurrent\<close>\<close>

datatype recurrent_response =
    Recurrent200 agendamento
  | RecurrentError500

text \<open>
  The handler stores the rule of the body, has the generator store its classes and answers
  with the rule. It calls no conflict check. The rule's insertion raises on an Invalid Date
  like the batch's; whatever is raised is answered with status 500, and what was stored before
  stays stored.
\<close>

definition insertAgendamento :: "int \<Rightarrow> store \<Rightarrow> agendamento_data \<Rightarrow> (agendamento \<times> store) option"
  where
  "insertAgendamento tz st d =
     (if TimeClip tz (ag_startDate d) = None \<or>
         (case ag_endDate d of None \<Rightarrow> False | Some e \<Rightarrow> TimeClip tz e = None)
      then None
      else (let ag = agendamento_data.extend d
                       (agendamento.fields (freshId (map ag_id (st_agendamentos st))))
            in Some (ag, st\<lparr>st_agendamentos := st_agendamentos st @ [ag]\<rparr>)))"

definition postRecurrent :: "int \<Rightarrow> store \<Rightarrow> agendamento_data \<Rightarrow> recurrent_response \<times> store" where
  "postRecurrent tz st body =
     (case insertAgendamento tz st body of
        None \<Rightarrow> (RecurrentError500, st)
      | Some (agendamento, st1) \<Rightarrow>
          (case generateClassesFromRecurrence tz st1 agendamento of
             None \<Rightarrow> (RecurrentError500, st1)
           | Some (classes, st2) \<Rightarrow> (Recurrent200 agendamento, st2)))"
section \<open>Properties of series of dates and of collisions\<close>

text \<open>
  The months counted through the years, and two dates that follow each other in a monthly
  series: the second shows the day \<^verbatim>\<open>setMonth\<close> reaches from the first, \<open>k\<close> months on.
\<close>

definition monthIndex :: "jsdate \<Rightarrow> int" where
  "monthIndex t = 12 * getFullYear t + getMonth t"

definition monthStep :: "int \<Rightarrow> jsdate \<Rightarrow> jsdate \<Rightarrow> bool" where
  "monthStep k a b \<longleftrightarrow> sqlDATE b = sqlDATE (setMonth a (getMonth a + k))"

text \<open>
  A series of dates that rolls over short months, \<open>k\<close> being the interval of the rule. Whenever
  the month \<open>k\<close> months after a date of the series has fewer days than the date's day of the
  month, no date of the series falls in that month, and the date that follows in the series, if
  there is one, falls in the month after it, on the day that is the surplus.
\<close>

definition rollsOver :: "int \<Rightarrow> jsdate list \<Rightarrow> bool" where
  "rollsOver k ds \<longleftrightarrow>
     (\<forall>i \<in> {0..<length ds}.
        case targetMonth (ds ! i) k of
          (y, m) \<Rightarrow>
            DaysInMonth y m < getDate (ds ! i) \<longrightarrow>
              (\<forall>d \<in> set ds. (getFullYear d, getMonth d) \<noteq> (y, m)) \<and>
              (Suc i < length ds \<longrightarrow>
                 sqlDATE (ds ! Suc i)
                   = (fst (monthAfter (y, m)), snd (monthAfter (y, m)),
                      getDate (ds ! i) - DaysInMonth y m)))"


section \<open>Concrete rules and requests\<close>

text \<open>A weekly rule on Mondays and Wednesdays over the four weeks from Monday 2024-01-01.\<close>

definition weeklyRule :: agendamento where
  "weeklyRule =
     \<lparr>ag_professorId = 2, ag_studentId = 3, ag_location = ''Studio'', ag_value = 15000,
      ag_service = ''Personal'', ag_notes = '''',
      ag_regras = \<lparr>rtype = ''weekly'', interval = 1,
                    weekDays = Some [''monday'', ''wednesday'']\<rparr>,
      ag_startDate = dateTime (2024, 0, 1) (9, 0),
      ag_endDate = Some (dateTime (2024, 0, 28) (23, 59)),
      ag_maxOccurrences = None, ag_active = True, ag_id = 1\<rparr>"

text \<open>A monthly rule anchored on the 31st of January 2024, without an end.\<close>

definition monthlyRule :: agendamento where
  "monthlyRule =
     weeklyRule\<lparr>ag_regras := \<lparr>rtype = ''monthly'', interval = 1, weekDays = None\<rparr>,
                ag_startDate := dateTime (2024, 0, 31) (9, 0), ag_endDate := None\<rparr>"

text \<open>A daily rule without an end whose start date lies a year before the request.\<close>

definition dailyRule :: agendamento where
  "dailyRule =
     weeklyRule\<lparr>ag_regras := \<lparr>rtype = ''daily'', interval = 1, weekDays = None\<rparr>,
                ag_startDate := dateTime (2023, 0, 1) (9, 0), ag_endDate := None\<rparr>"

text \<open>The moment of the requests: 2024-01-01 08:00.\<close>

definition newYear :: jsdate where
  "newYear = dateTime (2024, 0, 1) (8, 0)"

text \<open>The same weekly series as a \<^verbatim>\<open>POST /api/sessions\<close> request, with its Portuguese day names.\<close>

definition weeklyRequest :: session_request where
  "weeklyRequest =
     \<lparr>rq_startTime = dateTime (2024, 0, 1) (9, 0), rq_endTime = dateTime (2024, 0, 1) (10, 30),
      recurrenceType = ''weekly'', recurrenceInterval = 1,
      recurrenceWeekDays = Some [''segunda'', ''quarta''],
      recurrenceEndType = ''date'', recurrenceEndDate = Some (dateTime (2024, 0, 28) (23, 59)),
      recurrenceEndCount = None\<rparr>"

text \<open>The monthly rule anchored on the 31st of March 2024: April has 30 days.\<close>

definition marchRule :: agendamento where
  "marchRule = monthlyRule\<lparr>ag_startDate := dateTime (2024, 2, 31) (9, 0)\<rparr>"

text \<open>The same series as a \<^verbatim>\<open>POST /api/sessions\<close> request for three sessions.\<close>

definition marchRequest :: session_request where
  "marchRequest =
     \<lparr>rq_startTime = dateTime (2024, 2, 31) (9, 0), rq_endTime = dateTime (2024, 2, 31) (10, 0),
      recurrenceType = ''monthly'', recurrenceInterval = 1, recurrenceWeekDays = None,
      recurrenceEndType = ''count'', recurrenceEndDate = None, recurrenceEndCount = Some 3\<rparr>"

text \<open>
  A session of trainer 7 that is booked from 09:00 to 10:00 of 2024-01-02, and the lead it is
  booked for.
\<close>

definition bookedSession :: session_row where
  "bookedSession =
     \<lparr>s_id = 3, s_trainer_id = 7, s_lead_id = 3, s_status = ''agendado'',
      s_start_time = dateTime (2024, 0, 2) (9, 0), s_end_time = dateTime (2024, 0, 2) (10, 0)\<rparr>"

definition someLeads :: "lead_row list" where
  "someLeads = [\<lparr>l_id = 3, l_name = ''Ana''\<rparr>]"

text \<open>A check for trainer 7 on 2024-01-02 from \<open>startT\<close> to \<open>endT\<close>.\<close>

definition checkFor :: "int \<times> int \<Rightarrow> int \<times> int \<Rightarrow> conflict_request" where
  "checkFor startT endT =
     \<lparr>cr_trainerId = Some 7, cr_date = Some (2024, 0, 2), cr_startTime = Some startT,
      cr_endTime = Some endT\<rparr>"

text \<open>
  A store with professor 2, lead 3 and two classes of the professor on 2024-01-01, from 09:00 to
  10:00 and from 10:30 to 11:30.
\<close>

definition classAt :: "int \<times> int \<Rightarrow> int \<times> int \<Rightarrow> int \<Rightarrow> stored_aula" where
  "classAt startT endT n =
     \<lparr>agendamentoRecorrenteId = None, professorId = 2, studentId = 3,
      startTime = dateTime (2024, 0, 1) startT, endTime = dateTime (2024, 0, 1) endT,
      location = ''Studio'', value = 15000, service = ''Personal'', notes = '''',
      status = ''agendado'', isModified = False, originalStartTime = None,
      originalEndTime = None, aula_id = n\<rparr>"

definition exampleStore :: store where
  "exampleStore =
     \<lparr>st_users = [\<lparr>u_id = 2, u_role = ''professor''\<rparr>], st_leads = someLeads,
      st_agendamentos = [], st_aulas = [classAt (9, 0) (10, 0) 1, classAt (10, 30) (11, 30) 2]\<rparr>"


text \<open>The validated data of a weekly rule for professor 2 that starts on 2024-01-01 at 09:00.\<close>

definition weeklyData :: agendamento_data where
  "weeklyData =
     \<lparr>ag_professorId = 2, ag_studentId = 3, ag_location = ''Studio'', ag_value = 15000,
      ag_service = ''Personal'', ag_notes = '''',
      ag_regras = \<lparr>rtype = ''weekly'', interval = 1, weekDays = Some [''monday'']\<rparr>,
      ag_startDate = dateTime (2024, 0, 1) (9, 0),
      ag_endDate = Some (dateTime (2024, 0, 14) (23, 59)),
      ag_maxOccurrences = None, ag_active = True\<rparr>"

section \<open>Calendar arithmetic\<close>

lemma div_step:
  fixes a n :: int
  assumes "0 < n"
  shows "(a + 1) div n = a div n + (if (a + 1) mod n = 0 then 1 else 0)"
proof -
  define q r where "q = a div n" and "r = a mod n"
  have a: "a = n * q + r" and r: "0 \<le> r" "r < n"
    using assms by (simp_all add: q_def r_def)
  show ?thesis
  proof (cases "r + 1 = n")
    case True
    have e: "a + 1 = n * (q + 1) + 0"
      using a True by (simp add: algebra_simps)
    have "(a + 1) div n = q + 1"
      by (rule int_div_pos_eq [OF e]) (use assms in simp_all)
    moreover have "(a + 1) mod n = 0"
      by (rule int_mod_pos_eq [OF e]) (use assms in simp_all)
    ultimately show ?thesis by (simp add: q_def)
  next
    case False
    have e: "a + 1 = n * q + (r + 1)"
      using a by simp
    have lt: "r + 1 < n" using False r by simp
    have "(a + 1) div n = q"
      by (rule int_div_pos_eq [OF e]) (use r lt in simp_all)
    moreover have "(a + 1) mod n = r + 1"
      by (rule int_mod_pos_eq [OF e]) (use r lt in simp_all)
    ultimately show ?thesis using r by (simp add: q_def)
  qed
qed

lemma leap_step4:
  "((y::int) + 1 - 1969) div 4 = (y - 1969) div 4 + (if y mod 4 = 0 then 1 else 0)"
proof -
  have "y - 1969 + 1 = y + (- 492) * 4" by simp
  then have "(y - 1969 + 1) mod 4 = y mod 4" by (simp only: mod_mult_self1)
  moreover have "y + 1 - 1969 = y - 1969 + 1" by simp
  ultimately show ?thesis using div_step [of 4 "y - 1969"] by simp
qed

lemma leap_step100:
  "((y::int) + 1 - 1901) div 100 = (y - 1901) div 100 + (if y mod 100 = 0 then 1 else 0)"
proof -
  have "y - 1901 + 1 = y + (- 19) * 100" by simp
  then have "(y - 1901 + 1) mod 100 = y mod 100" by (simp only: mod_mult_self1)
  moreover have "y + 1 - 1901 = y - 1901 + 1" by simp
  ultimately show ?thesis using div_step [of 100 "y - 1901"] by simp
qed

lemma leap_step400:
  "((y::int) + 1 - 1601) div 400 = (y - 1601) div 400 + (if y mod 400 = 0 then 1 else 0)"
proof -
  have "y - 1601 + 1 = y + (- 4) * 400" by simp
  then have "(y - 1601 + 1) mod 400 = y mod 400" by (simp only: mod_mult_self1)
  moreover have "y + 1 - 1601 = y - 1601 + 1" by simp
  ultimately show ?thesis using div_step [of 400 "y - 1601"] by simp
qed

lemma DayFromYear_next:
  "DayFromYear (y + 1) = DayFromYear y + (if InLeapYear y then 366 else 365)"
proof -
  have d: "y mod 400 = 0 \<Longrightarrow> y mod 100 = 0"
    using dvd_trans [of 100 400 y] by (simp add: mod_eq_0_iff_dvd)
  have e: "y mod 100 = 0 \<Longrightarrow> y mod 4 = 0"
    using dvd_trans [of 4 100 y] by (simp add: mod_eq_0_iff_dvd)
  define A B C where "A = (y - 1969) div 4" and "B = (y - 1901) div 100"
    and "C = (y - 1601) div 400"
  define p4 p100 p400 where "p4 \<longleftrightarrow> y mod 4 = 0" and "p100 \<longleftrightarrow> y mod 100 = 0"
    and "p400 \<longleftrightarrow> y mod 400 = 0"
  have d': "p400 \<longrightarrow> p100" and e': "p100 \<longrightarrow> p4"
    using d e by (simp_all add: p4_def p100_def p400_def)
  have "365 * (y + 1 - 1970) + (A + (if p4 then 1 else 0)) - (B + (if p100 then 1 else 0))
          + (C + (if p400 then 1 else 0))
        = 365 * (y - 1970) + A - B + C + (if p4 \<and> (\<not> p100 \<or> p400) then 366 else 365)"
    using d' e' by (cases p4; cases p100; cases p400; simp)
  then show ?thesis
    unfolding DayFromYear_def InLeapYear_def leap_step4 leap_step100 leap_step400
      A_def B_def C_def p4_def p100_def p400_def .
qed

lemma upto_0_11: "[0..11::int] = [0, 1, 2, 3, 4, 5, 6, 7, 8, 9, 10, 11]"
  by code_simp

lemma month_cases:
  assumes "0 \<le> m" "m \<le> (11::int)"
  shows "m = 0 \<or> m = 1 \<or> m = 2 \<or> m = 3 \<or> m = 4 \<or> m = 5 \<or> m = 6 \<or> m = 7
           \<or> m = 8 \<or> m = 9 \<or> m = 10 \<or> m = 11"
proof -
  have "m \<in> set [0..11]" using assms by simp
  then show ?thesis unfolding upto_0_11 by simp
qed

lemma DaysInMonth_bounds: "28 \<le> DaysInMonth y m" "DaysInMonth y m \<le> 31"
  by (simp_all add: DaysInMonth_def)

text \<open>The first day of the month after month \<open>m\<close> lies \<open>DaysInMonth y m\<close> days later.\<close>

lemma month_start_next:
  assumes "0 \<le> m" "m \<le> 11"
  shows "month_start (if m = 11 then y + 1 else y) (if m = 11 then 0 else m + 1)
           = month_start y m + DaysInMonth y m"
  using month_cases [OF assms]
  by (elim disjE)
     (simp_all add: month_start_def DaysBeforeMonth_def DaysInMonth_def DayFromYear_next)

lemma month_start_prev:
  assumes "0 \<le> m" "m \<le> 11"
  shows "month_start (if m = 0 then y - 1 else y) (if m = 0 then 11 else m - 1)
           + DaysInMonth (if m = 0 then y - 1 else y) (if m = 0 then 11 else m - 1)
           = month_start y m"
proof (cases "m = 0")
  case True
  then show ?thesis using month_start_next [of 11 "y - 1"] by simp
next
  case False
  then show ?thesis using month_start_next [of "m - 1" y] assms by simp
qed

text \<open>Carrying keeps the day count and ends on a day inside its month.\<close>

lemma carry_days_sound:
  "0 \<le> m \<Longrightarrow> m \<le> 11 \<Longrightarrow> carry_days y m d = (y', m', d') \<Longrightarrow>
     month_start y' m' + d' = month_start y m + d \<and> 0 \<le> m' \<and> m' \<le> 11
       \<and> 1 \<le> d' \<and> d' \<le> DaysInMonth y' m'"
proof (induction y m d rule: carry_days.induct)
  case (1 y m d)
  note eq = "1.prems"(3) [unfolded carry_days.simps [of y m d]]
  show ?case
  proof (cases "d < 1")
    case True
    show ?thesis
    proof (cases "m = 0")
      case m0: True
      from eq True m0 have "carry_days (y - 1) 11 (d + DaysInMonth (y - 1) 11) = (y', m', d')"
        by simp
      from "1.IH"(1) [OF True m0 _ _ this] month_start_prev [of 0 y]
      show ?thesis using m0 by simp
    next
      case m1: False
      from eq True m1 have "carry_days y (m - 1) (d + DaysInMonth y (m - 1)) = (y', m', d')"
        by simp
      from "1.IH"(2) [OF True m1 _ _ this] month_start_prev [of m y] "1.prems"(1,2)
      show ?thesis using m1 by simp
    qed
  next
    case False
    show ?thesis
    proof (cases "DaysInMonth y m < d")
      case big: True
      show ?thesis
      proof (cases "m = 11")
        case m0: True
        from eq False big m0 have "carry_days (y + 1) 0 (d - DaysInMonth y m) = (y', m', d')"
          by simp
        from "1.IH"(3) [OF False big m0 _ _ this] month_start_next [of 11 y]
        show ?thesis using m0 by simp
      next
        case m1: False
        from eq False big m1 have "carry_days y (m + 1) (d - DaysInMonth y m) = (y', m', d')"
          by simp
        from "1.IH"(4) [OF False big m1 _ _ this] month_start_next [of m y] "1.prems"(1,2)
        show ?thesis using m1 by simp
      qed
    next
      case small: False
      from eq False small have "(y', m', d') = (y, m, d)" by simp
      then show ?thesis using False small "1.prems"(1,2) by simp
    qed
  qed
qed

subsection \<open>The setters\<close>

lemma MakeDay_sound:
  assumes "MakeDay y m d = (y', m', d')"
  shows "month_start y' m' + d' = month_start (y + m div 12) (m mod 12) + d"
    and "0 \<le> m'" and "m' \<le> 11" and "1 \<le> d'" and "d' \<le> DaysInMonth y' m'"
proof -
  have "0 \<le> m mod 12" "m mod 12 \<le> 11" by simp_all
  from carry_days_sound [OF this assms [unfolded MakeDay_def]]
  show "month_start y' m' + d' = month_start (y + m div 12) (m mod 12) + d"
    and "0 \<le> m'" and "m' \<le> 11" and "1 \<le> d'" and "d' \<le> DaysInMonth y' m'"
    by simp_all
qed

lemma month_in_range: "0 \<le> m \<Longrightarrow> m \<le> 11 \<Longrightarrow> (m::int) div 12 = 0 \<and> m mod 12 = m"
  by simp

lemma withDay_fields [simp]:
  "getHours (withDay t p) = getHours t" "getMinutes (withDay t p) = getMinutes t"
  "getSecMs (withDay t p) = getSecMs t"
  by (simp_all add: withDay_def split: prod.splits)

lemma withDay_ymd:
  "getFullYear (withDay t (y, m, d)) = y" "getMonth (withDay t (y, m, d)) = m"
  "getDate (withDay t (y, m, d)) = d"
  by (simp_all add: withDay_def)

lemma Day_withDay_MakeDay:
  "Day (withDay t (MakeDay y m d)) = month_start (y + m div 12) (m mod 12) + d - 1"
proof -
  obtain y' m' d' where e: "MakeDay y m d = (y', m', d')" by (cases "MakeDay y m d")
  from MakeDay_sound(1) [OF e] show ?thesis
    by (simp add: e Day_def withDay_ymd)
qed

lemma month_ok_withDay_MakeDay:
  "0 \<le> getMonth (withDay t (MakeDay y m d))" "getMonth (withDay t (MakeDay y m d)) \<le> 11"
  "1 \<le> getDate (withDay t (MakeDay y m d))"
  "getDate (withDay t (MakeDay y m d))
     \<le> DaysInMonth (getFullYear (withDay t (MakeDay y m d))) (getMonth (withDay t (MakeDay y m d)))"
proof -
  obtain y' m' d' where e: "MakeDay y m d = (y', m', d')" by (cases "MakeDay y m d")
  from MakeDay_sound(2-5) [OF e]
  show "0 \<le> getMonth (withDay t (MakeDay y m d))" "getMonth (withDay t (MakeDay y m d)) \<le> 11"
    "1 \<le> getDate (withDay t (MakeDay y m d))"
    "getDate (withDay t (MakeDay y m d))
     \<le> DaysInMonth (getFullYear (withDay t (MakeDay y m d))) (getMonth (withDay t (MakeDay y m d)))"
    by (simp_all add: e withDay_ymd)
qed

lemma Day_setDate:
  "0 \<le> getMonth t \<Longrightarrow> getMonth t \<le> 11 \<Longrightarrow> Day (setDate t n) = Day t + (n - getDate t)"
  by (simp add: setDate_def Day_withDay_MakeDay) (simp add: Day_def)

lemma getTime_setDate:
  "0 \<le> getMonth t \<Longrightarrow> getMonth t \<le> 11 \<Longrightarrow>
     getTime (setDate t n) = getTime t + (n - getDate t) * 86400000"
  by (simp add: getTime_def Day_setDate) (simp add: setDate_def algebra_simps)

lemma month_index_next:
  "((i::int) + 1) div 12 = (if i mod 12 = 11 then i div 12 + 1 else i div 12)"
  "((i::int) + 1) mod 12 = (if i mod 12 = 11 then 0 else i mod 12 + 1)"
proof -
  define q r where "q = i div 12" and "r = i mod 12"
  have i: "i = 12 * q + r" and r: "0 \<le> r" "r < 12" by (simp_all add: q_def r_def)
  have "(i + 1) div 12 = (if r = 11 then q + 1 else q) \<and> (i + 1) mod 12 = (if r = 11 then 0 else r + 1)"
  proof (cases "r = 11")
    case True
    then have e: "i + 1 = 12 * (q + 1) + 0" using i by simp
    show ?thesis using int_div_pos_eq [OF e] int_mod_pos_eq [OF e] True by simp
  next
    case False
    then have e: "i + 1 = 12 * q + (r + 1)" and "r + 1 < 12" using i r by simp_all
    then show ?thesis using int_div_pos_eq [OF e] int_mod_pos_eq [OF e] r False by simp
  qed
  then show "(i + 1) div 12 = (if i mod 12 = 11 then i div 12 + 1 else i div 12)"
    "(i + 1) mod 12 = (if i mod 12 = 11 then 0 else i mod 12 + 1)"
    by (simp_all add: q_def r_def)
qed

lemma month_start_index_next:
  "month_start ((i + 1) div 12) ((i + 1) mod 12)
     = month_start (i div 12) (i mod 12) + DaysInMonth (i div 12) (i mod 12)"
  using month_start_next [of "i mod 12" "i div 12"] by (simp add: month_index_next)

lemma month_start_index_mono:
  "month_start (i div 12) (i mod 12) + 28 * int k
     \<le> month_start ((i + int k) div 12) ((i + int k) mod 12)"
proof (induction k)
  case 0
  then show ?case by simp
next
  case (Suc k)
  define j where "j = i + int k"
  have e: "i + int (Suc k) = j + 1" by (simp add: j_def)
  have "month_start (i div 12) (i mod 12) + 28 * int k \<le> month_start (j div 12) (j mod 12)"
    using Suc by (simp add: j_def)
  moreover have "month_start ((j + 1) div 12) ((j + 1) mod 12)
     = month_start (j div 12) (j mod 12) + DaysInMonth (j div 12) (j mod 12)"
    by (rule month_start_index_next)
  moreover have "28 \<le> DaysInMonth (j div 12) (j mod 12)"
    by (rule DaysInMonth_bounds)
  ultimately have "month_start (i div 12) (i mod 12) + 28 * int (Suc k)
     \<le> month_start ((j + 1) div 12) ((j + 1) mod 12)"
    by simp
  then show ?case unfolding e .
qed

lemma month_index_split:
  "0 \<le> m \<Longrightarrow> m \<le> 11 \<Longrightarrow> (12 * y + m) div 12 = y \<and> (12 * y + m) mod 12 = (m::int)"
  by simp

text \<open>Moving \<open>k\<close> months ahead moves at least \<open>28 * k\<close> days ahead.\<close>

lemma month_start_ahead:
  assumes "0 \<le> m" "m \<le> 11" "0 \<le> k"
  shows "month_start y m + 28 * k \<le> month_start (y + (m + k) div 12) ((m + k) mod 12)"
proof -
  define i where "i = 12 * y + m"
  have a: "i div 12 = y" "i mod 12 = m"
    using month_index_split [OF assms(1,2), of y] by (simp_all add: i_def)
  have "i + k = 12 * y + (m + k)" by (simp add: i_def)
  then have b: "(i + k) div 12 = y + (m + k) div 12" "(i + k) mod 12 = (m + k) mod 12"
    by (simp_all only: div_mult_self4 mod_mult_self4)
  have "month_start (i div 12) (i mod 12) + 28 * int (nat k)
          \<le> month_start ((i + int (nat k)) div 12) ((i + int (nat k)) mod 12)"
    by (rule month_start_index_mono)
  then show ?thesis using assms(3) by (simp add: a b)
qed

lemma Day_setMonth_grows:
  assumes "0 \<le> getMonth t" "getMonth t \<le> 11" "1 \<le> k"
  shows "Day t + 28 * k \<le> Day (setMonth t (getMonth t + k))"
  using month_start_ahead [OF assms(1,2), of k "getFullYear t"] assms(3)
  by (simp add: setMonth_def Day_withDay_MakeDay) (simp add: Day_def)

lemma Day_setFullYear_grows:
  assumes "0 \<le> getMonth t" "getMonth t \<le> 11" "1 \<le> k"
  shows "Day t + 28 * k \<le> Day (setFullYear t (getFullYear t + k))"
proof -
  have "(getMonth t + 12 * k) div 12 = k + getMonth t div 12"
    "(getMonth t + 12 * k) mod 12 = getMonth t mod 12"
    by (simp_all only: div_mult_self2 mod_mult_self2)
  then have "getFullYear t + (getMonth t + 12 * k) div 12 = getFullYear t + k"
    "(getMonth t + 12 * k) mod 12 = getMonth t"
    using assms(1,2) by simp_all
  with month_start_ahead [OF assms(1,2), of "12 * k" "getFullYear t"] assms
  have "month_start (getFullYear t) (getMonth t) + 28 * (12 * k)
          \<le> month_start (getFullYear t + k) (getMonth t)"
    by simp
  then show ?thesis
    using assms by (simp add: setFullYear_def Day_withDay_MakeDay) (simp add: Day_def)
qed

subsection \<open>The cursor of the controller's expansion\<close>

lemma valid_withDay_MakeDay:
  assumes "0 \<le> getHours t" "getHours t \<le> 23" "0 \<le> getMinutes t" "getMinutes t \<le> 59"
    "0 \<le> getSecMs t" "getSecMs t \<le> 59999"
  shows "valid_date (withDay t (MakeDay y m d))"
  unfolding valid_date_def using month_ok_withDay_MakeDay [of t y m d] assms by simp

lemma valid_setDate: "valid_date t \<Longrightarrow> valid_date (setDate t n)"
  unfolding setDate_def by (rule valid_withDay_MakeDay) (simp_all add: valid_date_def)

lemma valid_setMonth: "valid_date t \<Longrightarrow> valid_date (setMonth t n)"
  unfolding setMonth_def by (rule valid_withDay_MakeDay) (simp_all add: valid_date_def)

lemma valid_setFullYear: "valid_date t \<Longrightarrow> valid_date (setFullYear t n)"
  unfolding setFullYear_def by (rule valid_withDay_MakeDay) (simp_all add: valid_date_def)

lemma sameClock_setters:
  "sameClock (setDate t n) t" "sameClock (setMonth t n) t" "sameClock (setFullYear t n) t"
  by (simp_all add: sameClock_def setDate_def setMonth_def setFullYear_def)

lemma getTime_sameClock:
  "sameClock a b \<Longrightarrow> getTime a - getTime b = (Day a - Day b) * 86400000"
  by (simp add: sameClock_def getTime_def algebra_simps)

lemma valid_nextOccurrence: "valid_date t \<Longrightarrow> valid_date (nextOccurrence r t)"
  by (simp add: nextOccurrence_def valid_setDate valid_setMonth valid_setFullYear)

lemma sameClock_nextOccurrence: "sameClock (nextOccurrence r t) t"
  by (simp add: nextOccurrence_def sameClock_setters)

text \<open>With a positive interval every branch of the switch moves the cursor a day or more.\<close>

lemma nextOccurrence_advances:
  assumes "valid_date t" "1 \<le> interval r"
  shows "getTime t + 86400000 \<le> getTime (nextOccurrence r t)"
proof -
  have m: "0 \<le> getMonth t" "getMonth t \<le> 11" using assms(1) by (simp_all add: valid_date_def)
  have "Day t + 1 \<le> Day (nextOccurrence r t)"
    using Day_setMonth_grows [OF m assms(2)] Day_setFullYear_grows [OF m assms(2)] assms(2)
    by (simp add: nextOccurrence_def Day_setDate [OF m])
  moreover have "getTime (nextOccurrence r t) - getTime t
      = (Day (nextOccurrence r t) - Day t) * 86400000"
    by (rule getTime_sameClock [OF sameClock_nextOccurrence])
  ultimately show ?thesis by simp
qed

lemma setDate_next_day:
  "valid_date t \<Longrightarrow> getTime (setDate t (getDate t + 1)) = getTime t + 86400000"
  by (simp add: getTime_setDate valid_date_def)

lemma rounds_step:
  fixes x x' D :: int
  assumes "0 < D" "D \<le> x" "x' + D \<le> x"
  shows "nat (x' div D) + 1 \<le> nat (x div D)"
proof -
  have "x - D = x + (- 1) * D" by simp
  then have "(x - D) div D = - 1 + x div D"
    using assms(1) by (simp only: div_mult_self1) 
  moreover have "x' div D \<le> (x - D) div D"
    using assms by (intro zdiv_mono1) simp_all
  moreover have "1 \<le> x div D"
    using zdiv_mono1 [of D x D] assms by simp
  ultimately show ?thesis by simp
qed

lemma daysToHorizon_step:
  assumes "getTime cur \<le> getTime M" "getTime cur + 86400000 \<le> getTime cur'"
  shows "daysToHorizon M cur' + 1 \<le> daysToHorizon M cur"
  unfolding daysToHorizon_def
  by (rule rounds_step) (use assms in simp_all)

text \<open>
  With a positive interval the loop returns. It pushes no more classes than there are days up
  to the horizon, and each class it pushes is the one of a cursor date within the horizon.
\<close>

lemma gen_loop_total:
  assumes iv: "1 \<le> interval (ag_regras ag)"
  shows "valid_date cur \<Longrightarrow> sameClock cur (ag_startDate ag) \<Longrightarrow>
     \<exists>r. gen_loop ag M cur cnt acc = Some r \<and>
         length r \<le> length acc + daysToHorizon M cur \<and>
         (\<forall>a \<in> set r. a \<in> set acc \<or>
            (\<exists>c. a = newAula ag c \<and> valid_date c \<and> sameClock c (ag_startDate ag) \<and>
                 getTime c \<le> getTime M))"
proof (induction "nat (getTime M - getTime cur + 1)" arbitrary: cur cnt acc rule: less_induct)
  case less
  note v = less.prems(1) and sc = less.prems(2)
  show ?case
  proof (cases "getTime cur \<le> getTime M")
    case False
    then have "gen_loop ag M cur cnt acc = Some acc"
      by (subst gen_loop.simps) simp
    then show ?thesis by simp
  next
    case inside: True
    show ?thesis
    proof (cases "maxOccurrencesReached (ag_maxOccurrences ag) cnt \<or> afterEnd (ag_endDate ag) cur")
      case True
      then have "gen_loop ag M cur cnt acc = Some acc"
        by (subst gen_loop.simps) auto
      then show ?thesis by simp
    next
      case going: False
      show ?thesis
      proof (cases "skipsDay (ag_regras ag) cur")
        case True
        let ?c = "setDate cur (getDate cur + 1)"
        have step: "getTime ?c = getTime cur + 86400000"
          by (rule setDate_next_day [OF v])
        have less': "nat (getTime M - getTime ?c + 1) < nat (getTime M - getTime cur + 1)"
          using step inside by simp
        have sc': "sameClock ?c (ag_startDate ag)"
          using sameClock_setters(1) [of cur "getDate cur + 1"] sc by (simp add: sameClock_def)
        from less.hyps [OF less' valid_setDate [OF v] sc', of cnt acc]
        obtain r where r: "gen_loop ag M ?c cnt acc = Some r"
          "length r \<le> length acc + daysToHorizon M ?c"
          "\<forall>a \<in> set r. a \<in> set acc \<or>
            (\<exists>c. a = newAula ag c \<and> valid_date c \<and> sameClock c (ag_startDate ag) \<and>
                 getTime c \<le> getTime M)"
          by blast
        have "gen_loop ag M cur cnt acc = gen_loop ag M ?c cnt acc"
          using inside going True by (subst gen_loop.simps) simp
        moreover have "daysToHorizon M ?c + 1 \<le> daysToHorizon M cur"
          by (rule daysToHorizon_step [OF inside]) (simp add: step)
        ultimately show ?thesis using r by auto
      next
        case False
        let ?c = "nextOccurrence (ag_regras ag) cur"
        have step: "getTime cur + 86400000 \<le> getTime ?c"
          by (rule nextOccurrence_advances [OF v iv])
        have less': "nat (getTime M - getTime ?c + 1) < nat (getTime M - getTime cur + 1)"
          using step inside by simp
        have sc': "sameClock ?c (ag_startDate ag)"
          using sameClock_nextOccurrence [of "ag_regras ag" cur] sc by (simp add: sameClock_def)
        from less.hyps [OF less' valid_nextOccurrence [OF v] sc', of "cnt + 1"
            "acc @ [newAula ag cur]"]
        obtain r where r: "gen_loop ag M ?c (cnt + 1) (acc @ [newAula ag cur]) = Some r"
          "length r \<le> length (acc @ [newAula ag cur]) + daysToHorizon M ?c"
          "\<forall>a \<in> set r. a \<in> set (acc @ [newAula ag cur]) \<or>
            (\<exists>c. a = newAula ag c \<and> valid_date c \<and> sameClock c (ag_startDate ag) \<and>
                 getTime c \<le> getTime M)"
          by blast
        have "gen_loop ag M cur cnt acc = gen_loop ag M ?c (cnt + 1) (acc @ [newAula ag cur])"
          using inside going False by (subst gen_loop.simps) simp
        moreover have "daysToHorizon M ?c + 1 \<le> daysToHorizon M cur"
          by (rule daysToHorizon_step [OF inside step])
        moreover have "\<forall>a \<in> set r. a \<in> set acc \<or>
            (\<exists>c. a = newAula ag c \<and> valid_date c \<and> sameClock c (ag_startDate ag) \<and>
                 getTime c \<le> getTime M)"
          using r(3) v sc inside by auto
        ultimately show ?thesis using r(1,2) by auto
      qed
    qed
  qed
qed

subsection \<open>Times of day\<close>

lemma clock_split:
  fixes h mi s :: int
  assumes "0 \<le> h" "0 \<le> mi" "mi \<le> 59" "0 \<le> s" "s \<le> 59999"
  shows "(h * 3600000 + mi * 60000 + s) div 3600000 = h"
    and "((h * 3600000 + mi * 60000 + s) mod 3600000) div 60000 = mi"
    and "(h * 3600000 + mi * 60000 + s) mod 60000 = s"
proof -
  have e1: "h * 3600000 + mi * 60000 + s = 3600000 * h + (mi * 60000 + s)" by simp
  have b1: "0 \<le> mi * 60000 + s" "mi * 60000 + s < 3600000" using assms by simp_all
  show "(h * 3600000 + mi * 60000 + s) div 3600000 = h"
    by (rule int_div_pos_eq [OF e1 b1])
  have m1: "(h * 3600000 + mi * 60000 + s) mod 3600000 = mi * 60000 + s"
    by (rule int_mod_pos_eq [OF e1 b1])
  have e2: "mi * 60000 + s = 60000 * mi + s" by simp
  have b2: "0 \<le> s" "s < 60000" using assms by simp_all
  show "((h * 3600000 + mi * 60000 + s) mod 3600000) div 60000 = mi"
    unfolding m1 by (rule int_div_pos_eq [OF e2 b2])
  have e3: "h * 3600000 + mi * 60000 + s = 60000 * (h * 60 + mi) + s" by simp
  show "(h * 3600000 + mi * 60000 + s) mod 60000 = s"
    by (rule int_mod_pos_eq [OF e3 b2])
qed

lemma clock_in_day:
  fixes h mi s :: int
  assumes "0 \<le> h" "h \<le> 23" "0 \<le> mi" "mi \<le> 59" "0 \<le> s" "s \<le> 59999"
  shows "(h * 3600000 + mi * 60000 + s) div 86400000 = 0"
    and "(h * 3600000 + mi * 60000 + s) mod 86400000 = h * 3600000 + mi * 60000 + s"
proof -
  have e: "h * 3600000 + mi * 60000 + s = 86400000 * 0 + (h * 3600000 + mi * 60000 + s)"
    by simp
  have b: "0 \<le> h * 3600000 + mi * 60000 + s" "h * 3600000 + mi * 60000 + s < 86400000"
    using assms by simp_all
  show "(h * 3600000 + mi * 60000 + s) div 86400000 = 0"
    by (rule int_div_pos_eq [OF e b])
  show "(h * 3600000 + mi * 60000 + s) mod 86400000 = h * 3600000 + mi * 60000 + s"
    by (rule int_mod_pos_eq [OF e b])
qed

lemma MakeDay_valid:
  assumes "valid_date t"
  shows "MakeDay (getFullYear t) (getMonth t) (getDate t) = (getFullYear t, getMonth t, getDate t)"
  using assms by (simp add: MakeDay_def valid_date_def carry_days.simps)

text \<open>Setting a time of day inside the day changes the clock fields and nothing else.\<close>

lemma setHours_in_day:
  assumes "valid_date t" "0 \<le> h" "h \<le> 23" "0 \<le> mi" "mi \<le> 59" "0 \<le> s" "s \<le> 59999"
  shows "setHours t h mi s = t\<lparr>getHours := h, getMinutes := mi, getSecMs := s\<rparr>"
  unfolding setHours_def Let_def
  by (simp only: clock_in_day [OF assms(2-7)] clock_split [OF assms(2) assms(4-7)])
     (simp add: MakeDay_valid [OF assms(1)] withDay_def)



subsection \<open>The classes the generators push\<close>

text \<open>
  The class pushed for a cursor that shows the clock of the rule's start date: it starts at
  the cursor and, when the rule starts before 23:00, ends on the same day one hour later.
\<close>

lemma newAula_start:
  assumes "valid_date s" "valid_date c" "sameClock c s" "ag_startDate ag = s"
  shows "startTime (newAula ag c) = c"
proof -
  have "setHours c (getHours s) (getMinutes s) (getSecMs c) = c"
    using setHours_in_day [of c "getHours s" "getMinutes s" "getSecMs c"] assms(1-3)
    by (simp add: valid_date_def sameClock_def)
  then show ?thesis by (simp add: newAula_def Let_def assms(4))
qed




text \<open>The request handler's loop runs while the counter is below both ceilings.\<close>

lemma sessions_step_length:
  "sessions_step rq cur ss = (cur', ss') \<Longrightarrow> length ss' \<le> length ss + 1"
  by (auto simp: sessions_step_def Let_def split: if_splits)

lemma sessions_loop_length:
  "sc \<le> 365 \<Longrightarrow>
     length (sessions_loop rq (Some n) ed cur sc ss) \<le> length ss + nat (min n 366 - sc)"
proof (induction rq "Some n" ed cur sc ss rule: sessions_loop.induct)
  case (1 rq ed cur sc ss)
  show ?case
  proof (cases "sc < n \<and> \<not> afterEnd ed cur")
    case False
    then have "sessions_loop rq (Some n) ed cur sc ss = ss"
      by (subst sessions_loop.simps) auto
    then show ?thesis by simp
  next
    case True
    obtain cur' ss' where st: "sessions_step rq cur ss = (cur', ss')"
      by (cases "sessions_step rq cur ss")
    note len = sessions_step_length [OF st]
    show ?thesis
    proof (cases "sc + 1 > 365")
      case last: True
      then have eq: "sessions_loop rq (Some n) ed cur sc ss = ss'"
        using True st by (subst sessions_loop.simps) simp
      have "1 \<le> nat (min n 366 - sc)"
        using True "1.prems" by (auto simp: min_def)
      then show ?thesis unfolding eq using len by linarith
    next
      case more: False
      then have e: "sessions_loop rq (Some n) ed cur sc ss
                      = sessions_loop rq (Some n) ed cur' (sc + 1) ss'"
        using True st by (subst sessions_loop.simps) simp
      have "length (sessions_loop rq (Some n) ed cur' (sc + 1) ss')
              \<le> length ss' + nat (min n 366 - (sc + 1))"
        using "1.hyps" [OF _ _ st [symmetric] more] True more by simp
      then show ?thesis unfolding e using len True more by (simp add: min_def split: if_splits)
    qed
  qed
qed

subsection \<open>The classes of the route file's generator\<close>






text \<open>
  The route handler asks nothing about the classes of the store: when the dates of the rule and
  of the batch are valid, it stores the whole batch and answers with the rule.
\<close>

lemma postRecurrent_unchecked:
  assumes "insertAgendamento tz st body = Some (ag, st1)"
    and "classes = classes_loop tz ag (map_option (TimeClip tz) (ag_endDate ag))
                     (TimeClip tz (ag_startDate ag)) 0 []"
    and "list_all (\<lambda>c. classRow c \<noteq> None) classes"
  shows "postRecurrent tz st body
     = (Recurrent200 ag,
        st1\<lparr>st_aulas := st_aulas st1 @
               storeAulas (freshId (map aula_id (st_aulas st1)))
                 (map (\<lambda>c. the (classRow c)) classes)\<rparr>)"
  using assms
  by (cases classes)
     (simp_all add: postRecurrent_def generateClassesFromRecurrence_def insertAulas_def Let_def)

subsection \<open>Monthly series\<close>

text \<open>Where \<^verbatim>\<open>setMonth\<close> leads: into the target month, or past it when that month is short.\<close>

lemma setMonth_date:
  assumes "valid_date t" and "targetMonth t k = (y, m)"
  shows "sqlDATE (setMonth t (getMonth t + k))
     = (if DaysInMonth y m < getDate t
        then (fst (monthAfter (y, m)), snd (monthAfter (y, m)), getDate t - DaysInMonth y m)
        else (y, m, getDate t))"
proof -
  define d where "d = getDate t"
  have d: "1 \<le> d" "d \<le> 31"
    using assms(1) DaysInMonth_bounds(2) [of "getFullYear t" "getMonth t"]
    by (simp_all add: d_def valid_date_def)
  have ym: "y = getFullYear t + (getMonth t + k) div 12" "m = (getMonth t + k) mod 12"
    using assms(2) by (simp_all add: targetMonth_def)
  have md: "MakeDay (getFullYear t) (getMonth t + k) d = carry_days y m d"
    by (simp add: MakeDay_def ym)
  have s: "sqlDATE (setMonth t (getMonth t + k)) = carry_days y m d"
    using md by (cases "carry_days y m d") (simp add: setMonth_def sqlDATE_def withDay_def d_def)
  show ?thesis
  proof (cases "DaysInMonth y m < d")
    case True
    obtain y' m' where n: "monthAfter (y, m) = (y', m')" by (cases "monthAfter (y, m)")
    have small: "1 \<le> d - DaysInMonth y m" "d - DaysInMonth y m \<le> DaysInMonth y' m'"
      using d True DaysInMonth_bounds [of y m] DaysInMonth_bounds(1) [of y' m'] by simp_all
    have "carry_days y m d = carry_days y' m' (d - DaysInMonth y m)"
      using d True n by (subst carry_days.simps) (simp add: monthAfter_def split: if_splits)
    also have "\<dots> = (y', m', d - DaysInMonth y m)"
      using small by (subst carry_days.simps) simp
    finally show ?thesis using True by (simp add: s n d_def)
  next
    case False
    then have "carry_days y m d = (y, m, d)"
      using d by (subst carry_days.simps) simp
    then show ?thesis using False by (simp add: s d_def)
  qed
qed

lemma targetMonth_index:
  "targetMonth t k = (y, m) \<Longrightarrow> 12 * y + m = monthIndex t + k"
  by (auto simp: targetMonth_def monthIndex_def)

lemma monthAfter_index: "12 * fst (monthAfter (y, m)) + snd (monthAfter (y, m)) = 12 * y + m + 1"
  by (simp add: monthAfter_def)

lemma monthStep_index:
  assumes "valid_date a" and "monthStep k a b" and "targetMonth a k = (y, m)"
  shows "monthIndex b = monthIndex a + k + (if DaysInMonth y m < getDate a then 1 else 0)"
proof -
  have "sqlDATE b = (if DaysInMonth y m < getDate a
        then (fst (monthAfter (y, m)), snd (monthAfter (y, m)), getDate a - DaysInMonth y m)
        else (y, m, getDate a))"
    using assms(2) setMonth_date [OF assms(1,3)] by (simp add: monthStep_def)
  then have "monthIndex b = (if DaysInMonth y m < getDate a
        then 12 * fst (monthAfter (y, m)) + snd (monthAfter (y, m)) else 12 * y + m)"
    by (simp add: sqlDATE_def monthIndex_def split: if_splits)
  then show ?thesis
    using targetMonth_index [OF assms(3)] monthAfter_index [of y m] by (simp split: if_splits)
qed

lemma monthStep_grows:
  assumes "valid_date a" and "monthStep k a b" and "1 \<le> k"
  shows "monthIndex a < monthIndex b"
proof -
  obtain y m where "targetMonth a k = (y, m)" by (cases "targetMonth a k")
  from monthStep_index [OF assms(1,2) this] assms(3) show ?thesis by (simp split: if_splits)
qed

text \<open>A series that moves by \<^verbatim>\<open>setMonth\<close> with a positive interval rolls over short months.\<close>

lemma monthly_series_rollsOver:
  assumes s: "successively (monthStep k) ds" and v: "\<forall>d \<in> set ds. valid_date d" and k: "1 \<le> k"
  shows "rollsOver k ds"
proof -
  have "successively (\<lambda>a b. monthIndex a < monthIndex b) ds"
    using s by (rule successively_mono) (use v k monthStep_grows in blast)
  moreover have "transp (\<lambda>a b. monthIndex a < monthIndex b)"
    by (auto simp: transp_def)
  ultimately have sorted: "sorted_wrt (\<lambda>a b. monthIndex a < monthIndex b) ds"
    by (simp add: successively_conv_sorted_wrt)
  {
    fix i y m
    assume i: "i < length ds" and t: "targetMonth (ds ! i) k = (y, m)"
      and short: "DaysInMonth y m < getDate (ds ! i)"
    have vi: "valid_date (ds ! i)" using v i by simp
    have tm: "12 * y + m = monthIndex (ds ! i) + k" by (rule targetMonth_index [OF t])
    have nxt: "monthIndex (ds ! Suc i) = 12 * y + m + 1" if "Suc i < length ds"
      using monthStep_index [OF vi successively_nth [OF s that] t] short tm by simp
    have none: "(getFullYear d, getMonth d) \<noteq> (y, m)" if "d \<in> set ds" for d
    proof -
      from that obtain j where j: "j < length ds" "d = ds ! j" by (auto simp: in_set_conv_nth)
      have "monthIndex d \<noteq> 12 * y + m"
      proof (cases "j \<le> i")
        case True
        then have "monthIndex d \<le> monthIndex (ds ! i)"
          using sorted_wrt_nth_less [OF sorted, of j i] i j by (cases "j = i") auto
        with tm k show ?thesis by simp
      next
        case False
        then have si: "Suc i < length ds" using j by simp
        have "monthIndex (ds ! Suc i) \<le> monthIndex d"
          using sorted_wrt_nth_less [OF sorted, of "Suc i" j] False j by (cases "j = Suc i") auto
        with nxt [OF si] show ?thesis by simp
      qed
      then show ?thesis by (auto simp: monthIndex_def)
    qed
    have date: "sqlDATE (ds ! Suc i)
                   = (fst (monthAfter (y, m)), snd (monthAfter (y, m)),
                      getDate (ds ! i) - DaysInMonth y m)" if "Suc i < length ds"
      using successively_nth [OF s that] setMonth_date [OF vi t] short
      by (simp add: monthStep_def)
    note none date
  }
  then show ?thesis
    unfolding rollsOver_def by (auto split: prod.splits)
qed

lemma monthStep_self: "monthStep k a (setMonth a (getMonth a + k))"
  by (simp add: monthStep_def)

lemma monthStep_cong:
  "sqlDATE a = sqlDATE a' \<Longrightarrow> sqlDATE b = sqlDATE b' \<Longrightarrow> monthStep k a b \<Longrightarrow> monthStep k a' b'"
  by (cases "MakeDay (getFullYear a) (getMonth a + k) (getDate a)")
     (auto simp: monthStep_def sqlDATE_def setMonth_def withDay_def)

lemma series_snoc:
  assumes "successively (monthStep k) (map f xs)"
    and "xs \<noteq> [] \<longrightarrow> monthStep k (f (last xs)) (f x)"
  shows "successively (monthStep k) (map f (xs @ [x]))"
  using assms by (cases "xs = []") (simp_all add: successively_append_iff last_map)

text \<open>The classes of a monthly rule: each start date is taken from the one before by the setter.\<close>

lemma gen_loop_monthly:
  assumes "gen_loop ag M cur cnt acc = Some r"
  shows "rtype (ag_regras ag) = ''monthly'' \<longrightarrow> valid_date (ag_startDate ag) \<longrightarrow>
     valid_date cur \<longrightarrow> sameClock cur (ag_startDate ag) \<longrightarrow>
     successively (monthStep (interval (ag_regras ag))) (map startTime acc) \<longrightarrow>
     (\<forall>a \<in> set acc. valid_date (startTime a)) \<longrightarrow>
     (acc \<noteq> [] \<longrightarrow> monthStep (interval (ag_regras ag)) (startTime (last acc)) cur) \<longrightarrow>
     successively (monthStep (interval (ag_regras ag))) (map startTime r) \<and>
     (\<forall>a \<in> set r. valid_date (startTime a))"
  apply (rule gen_loop.raw_induct [where P = "\<lambda>ag M cur cnt acc r.
     rtype (ag_regras ag) = ''monthly'' \<longrightarrow> valid_date (ag_startDate ag) \<longrightarrow>
     valid_date cur \<longrightarrow> sameClock cur (ag_startDate ag) \<longrightarrow>
     successively (monthStep (interval (ag_regras ag))) (map startTime acc) \<longrightarrow>
     (\<forall>a \<in> set acc. valid_date (startTime a)) \<longrightarrow>
     (acc \<noteq> [] \<longrightarrow> monthStep (interval (ag_regras ag)) (startTime (last acc)) cur) \<longrightarrow>
     successively (monthStep (interval (ag_regras ag))) (map startTime r) \<and>
     (\<forall>a \<in> set r. valid_date (startTime a))", OF _ assms])
  subgoal premises prems for loop ag M cur cnt acc r
  proof (intro impI)
    let ?k = "interval (ag_regras ag)"
    assume m: "rtype (ag_regras ag) = ''monthly''" and vs: "valid_date (ag_startDate ag)"
      and v: "valid_date cur" and sc: "sameClock cur (ag_startDate ag)"
      and ser: "successively (monthStep ?k) (map startTime acc)"
      and va: "\<forall>a \<in> set acc. valid_date (startTime a)"
      and lst: "acc \<noteq> [] \<longrightarrow> monthStep ?k (startTime (last acc)) cur"
    have ns: "\<not> skipsDay (ag_regras ag) cur" using m by (simp add: skipsDay_def)
    have nx: "nextOccurrence (ag_regras ag) cur = setMonth cur (getMonth cur + ?k)"
      using m by (simp add: nextOccurrence_def)
    have "r = acc \<or> loop ag M (setMonth cur (getMonth cur + ?k)) (cnt + 1)
                        (acc @ [newAula ag cur]) = Some r"
      using prems(2) ns nx by (simp split: if_splits)
    then show "successively (monthStep ?k) (map startTime r) \<and>
       (\<forall>a \<in> set r. valid_date (startTime a))"
    proof
      assume "r = acc"
      with ser va show ?thesis by simp
    next
      assume push: "loop ag M (setMonth cur (getMonth cur + ?k)) (cnt + 1)
                        (acc @ [newAula ag cur]) = Some r"
      have st: "startTime (newAula ag cur) = cur"
        by (rule newAula_start [OF vs v sc refl])
      have a: "valid_date (setMonth cur (getMonth cur + ?k))" by (rule valid_setMonth [OF v])
      have b: "sameClock (setMonth cur (getMonth cur + ?k)) (ag_startDate ag)"
        using sameClock_setters(2) [of cur "getMonth cur + ?k"] sc by (simp add: sameClock_def)
      have c: "successively (monthStep ?k) (map startTime (acc @ [newAula ag cur]))"
        by (rule series_snoc [OF ser]) (use lst st in simp)
      have d: "\<forall>a \<in> set (acc @ [newAula ag cur]). valid_date (startTime a)"
        using va v st by simp
      have e: "monthStep ?k (startTime (last (acc @ [newAula ag cur])))
                 (setMonth cur (getMonth cur + ?k))"
        by (simp add: st monthStep_self)
      from prems(1) [OF push] m vs a b c d e show ?thesis by simp
    qed
  qed
  done

text \<open>The sessions of a monthly request.\<close>

lemma slotAt_start:
  assumes "valid_date s" "valid_date cur" "rq_startTime rq = s"
  shows "sqlDATE (slot_startTime (slotAt rq cur ss)) = sqlDATE cur"
    and "valid_date (slot_startTime (slotAt rq cur ss))"
proof -
  have "setHours cur (getHours s) (getMinutes s) 0
          = cur\<lparr>getHours := getHours s, getMinutes := getMinutes s, getSecMs := 0\<rparr>"
    using setHours_in_day [of cur "getHours s" "getMinutes s" 0] assms(1,2)
    by (simp add: valid_date_def)
  then show "sqlDATE (slot_startTime (slotAt rq cur ss)) = sqlDATE cur"
    and "valid_date (slot_startTime (slotAt rq cur ss))"
    using assms by (simp_all add: slotAt_def sqlDATE_def valid_date_def)
qed

lemma sessions_loop_monthly:
  assumes m: "recurrenceType rq = ''monthly''" and vs: "valid_date (rq_startTime rq)"
  shows "valid_date cur \<Longrightarrow>
     successively (monthStep (recurrenceInterval rq)) (map slot_startTime ss) \<Longrightarrow>
     \<forall>s \<in> set ss. valid_date (slot_startTime s) \<Longrightarrow>
     ss \<noteq> [] \<longrightarrow> monthStep (recurrenceInterval rq) (slot_startTime (last ss)) cur \<Longrightarrow>
     successively (monthStep (recurrenceInterval rq))
       (map slot_startTime (sessions_loop rq mx ed cur sc ss)) \<and>
     (\<forall>s \<in> set (sessions_loop rq mx ed cur sc ss). valid_date (slot_startTime s))"
  using m vs
proof (induction rq mx ed cur sc ss rule: sessions_loop.induct)
  case (1 rq mx ed cur sc ss)
  note v = "1.prems"(1) and ser = "1.prems"(2) and va = "1.prems"(3) and lst = "1.prems"(4)
    and m = "1.prems"(5) and vs = "1.prems"(6)
  let ?k = "recurrenceInterval rq"
  let ?cur' = "setMonth cur (getMonth cur + ?k)"
  let ?ss' = "ss @ [slotAt rq cur ss]"
  have st: "sessions_step rq cur ss = (?cur', ?ss')"
    using m by (simp add: sessions_step_def)
  note sl = slotAt_start [OF vs v refl, of ss]
  have c: "successively (monthStep ?k) (map slot_startTime ?ss')"
  proof (rule series_snoc [OF ser], intro impI)
    assume "ss \<noteq> []"
    with lst have "monthStep ?k (slot_startTime (last ss)) cur" by simp
    then show "monthStep ?k (slot_startTime (last ss)) (slot_startTime (slotAt rq cur ss))"
      by (rule monthStep_cong [OF refl sl(1) [symmetric]])
  qed
  have d: "\<forall>s \<in> set ?ss'. valid_date (slot_startTime s)" using va sl(2) by simp
  have e: "?ss' \<noteq> [] \<longrightarrow> monthStep ?k (slot_startTime (last ?ss')) ?cur'"
    using monthStep_cong [OF sl(1) [symmetric] refl monthStep_self [of ?k cur]] by simp
  show ?case
  proof (cases "(case mx of None \<Rightarrow> False | Some n \<Rightarrow> sc < n) \<and> \<not> afterEnd ed cur")
    case False
    then have "sessions_loop rq mx ed cur sc ss = ss"
      by (subst sessions_loop.simps) auto
    with ser va show ?thesis by simp
  next
    case True
    show ?thesis
    proof (cases "sc + 1 > 365")
      case last: True
      then have "sessions_loop rq mx ed cur sc ss = ?ss'"
        using True st by (subst sessions_loop.simps) simp
      with c d show ?thesis by simp
    next
      case more: False
      then have eq: "sessions_loop rq mx ed cur sc ss
                      = sessions_loop rq mx ed ?cur' (sc + 1) ?ss'"
        using True st by (subst sessions_loop.simps) simp
      have "successively (monthStep ?k)
              (map slot_startTime (sessions_loop rq mx ed ?cur' (sc + 1) ?ss')) \<and>
            (\<forall>s \<in> set (sessions_loop rq mx ed ?cur' (sc + 1) ?ss'). valid_date (slot_startTime s))"
        using True more
        by (intro "1.IH" [OF _ _ st [symmetric] more valid_setMonth [OF v] c d e m vs]) auto
      then show ?thesis unfolding eq .
    qed
  qed
qed

subsection \<open>Counting the classes of a daily rule\<close>

lemma daysToHorizon_past:
  assumes "getTime M < getTime cur"
  shows "daysToHorizon M cur = 0"
proof -
  have "(getTime M - getTime cur + 86400000) div 86400000 \<le> (86400000 - 1) div 86400000"
    using assms by (intro zdiv_mono1) simp_all
  then have "(getTime M - getTime cur + 86400000) div 86400000 \<le> 0"
    by simp
  then show ?thesis by (simp add: daysToHorizon_def)
qed

lemma daysToHorizon_next_day:
  assumes "getTime cur \<le> getTime M" "getTime cur' = getTime cur + 86400000"
  shows "daysToHorizon M cur' + 1 = daysToHorizon M cur"
proof -
  define x where "x = getTime M - getTime cur + 86400000"
  have x: "86400000 \<le> x" using assms(1) by (simp add: x_def)
  have "x - 86400000 = x + (- 1) * 86400000" by simp
  then have "(x - 86400000) div 86400000 = - 1 + x div 86400000"
    by (simp only: div_mult_self1)
  moreover have "1 \<le> x div 86400000"
    using zdiv_mono1 [of 86400000 x 86400000] x by simp
  moreover have "getTime M - getTime cur' + 86400000 = x - 86400000"
    using assms(2) by (simp add: x_def)
  ultimately show ?thesis by (simp add: daysToHorizon_def x_def)
qed

text \<open>
  A daily rule of interval 1 with no end date and no occurrence limit pushes one class for
  every day up to the horizon.
\<close>

lemma gen_loop_daily_count:
  assumes daily: "rtype (ag_regras ag) = ''daily''" "interval (ag_regras ag) = 1"
    and e: "ag_endDate ag = None" "ag_maxOccurrences ag = None"
  shows "valid_date cur \<Longrightarrow>
     \<exists>r. gen_loop ag M cur cnt acc = Some r \<and> length r = length acc + daysToHorizon M cur"
proof (induction "nat (getTime M - getTime cur + 1)" arbitrary: cur cnt acc rule: less_induct)
  case less
  note v = less.prems(1)
  show ?case
  proof (cases "getTime cur \<le> getTime M")
    case False
    then have "gen_loop ag M cur cnt acc = Some acc"
      by (subst gen_loop.simps) simp
    then show ?thesis using False by (simp add: daysToHorizon_past)
  next
    case inside: True
    let ?c = "setDate cur (getDate cur + 1)"
    have n: "nextOccurrence (ag_regras ag) cur = ?c"
      by (simp add: nextOccurrence_def daily)
    have step: "getTime ?c = getTime cur + 86400000"
      by (rule setDate_next_day [OF v])
    have less': "nat (getTime M - getTime ?c + 1) < nat (getTime M - getTime cur + 1)"
      using step inside by simp
    from less.hyps [OF less' valid_setDate [OF v], of "cnt + 1" "acc @ [newAula ag cur]"]
    obtain r where r: "gen_loop ag M ?c (cnt + 1) (acc @ [newAula ag cur]) = Some r"
      "length r = length (acc @ [newAula ag cur]) + daysToHorizon M ?c"
      by blast
    have "gen_loop ag M cur cnt acc = gen_loop ag M ?c (cnt + 1) (acc @ [newAula ag cur])"
      using inside
      by (subst gen_loop.simps)
         (simp add: n e maxOccurrencesReached_def afterEnd_def skipsDay_def daily)
    moreover have "daysToHorizon M ?c + 1 = daysToHorizon M cur"
      by (rule daysToHorizon_next_day [OF inside step])
    ultimately show ?thesis using r by auto
  qed
qed

lemma sessions_loop_none: "sessions_loop rq None ed cur sc ss = ss"
  by (subst sessions_loop.simps) simp

subsection \<open>The concrete rules are well-formed\<close>

lemma valid_examples:
  "valid_date (ag_startDate weeklyRule)" "valid_date (ag_startDate monthlyRule)"
  "valid_date (ag_startDate dailyRule)" "valid_date newYear"
  "valid_date (ag_startDate marchRule)"
  by (simp_all add: weeklyRule_def monthlyRule_def dailyRule_def marchRule_def newYear_def
        dateTime_def
        valid_date_def DaysInMonth_def InLeapYear_def)

subsection \<open>The answers of the conflict check\<close>

text \<open>
  No result of \<^verbatim>\<open>db.execute\<close> has \<^verbatim>\<open>rows\<close>, so a request that passes the test of its
  parameters is answered with status 500.
\<close>

lemma rows_undefined: "rows result = None"
  by (cases result) (simp add: rows_def)

lemma checkConflicts_answers:
  "checkConflicts tz sessions leads body = BadRequest400 \<or>
   checkConflicts tz sessions leads body = ServerError500"
  by (simp add: checkConflicts_def rows_undefined Let_def split: option.splits prod.splits)

lemma checkConflicts_raises:
  assumes "cr_trainerId body = Some trainerId" and "trainerId \<noteq> 0"
    and "cr_date body = Some date" and "cr_startTime body = Some startT"
    and "cr_endTime body = Some endT"
  shows "checkConflicts tz sessions leads body = ServerError500"
  using assms
  by (simp add: checkConflicts_def rows_undefined Let_def split: option.splits prod.splits)

subsection \<open>The store\<close>

lemma foldr_max_ge: "x \<in> set ids \<Longrightarrow> x \<le> foldr max ids (0::int)"
  by (induction ids) auto

lemma freshId_fresh: "freshId ids \<notin> set ids"
  using foldr_max_ge [of "freshId ids" ids] by (auto simp: freshId_def)

lemma aula_id_applyUpdate [simp]: "aula_id (applyUpdate c a) = aula_id a"
  by (simp add: applyUpdate_def)



lemma createAgendamento_store:
  assumes "createAgendamentoRecorrente st d = (ag, st1)"
  shows "st_aulas st1 = st_aulas st" and "st_agendamentos st1 = st_agendamentos st @ [ag]"
    and "ag_id ag = freshId (map ag_id (st_agendamentos st))"
    and "ag_active ag = ag_active d" and "ag_regras ag = ag_regras d"
    and "ag_startDate ag = ag_startDate d"
  using assms
  by (auto simp: createAgendamentoRecorrente_def Let_def agendamento_data.defs agendamento.defs)

lemma batchConflicts_nonempty:
  assumes "a \<in> set aulas"
    and "chk st (professorId a) (studentId a) (startTime a) (endTime a) None = Some c"
  shows "batchConflicts chk st aulas \<noteq> []"
  using assms by (induction aulas) (auto simp: batchConflicts_def split: option.splits)







text \<open>
  The controller's handler creates no class when the checker rejects a class of the batch, and
  all of them when it rejects none.
\<close>

lemma controller_rejects_batch:
  assumes "createAgendamentoRecorrente st d = (ag, st1)"
    and "generateRecurrentClasses now ag = Some aulas"
    and "a \<in> set aulas"
    and "chk st1 (professorId a) (studentId a) (startTime a) (endTime a) None = Some conflict"
    and "createRecurrentScheduling chk now st (Inr d) = Some (response, st')"
  shows "st_aulas st' = st_aulas st \<and> (\<forall>ag' created. response \<noteq> Created201 ag' created)"
proof -
  note ne = batchConflicts_nonempty [of a aulas chk st1 conflict, OF assms(3,4)]
  note same = createAgendamento_store(1) [OF assms(1)]
  show ?thesis
    using assms(5) ne same
    by (auto simp: createRecurrentScheduling_def assms(1,2) Let_def
          split: option.splits if_splits)
qed

lemma batchConflicts_empty:
  assumes "\<forall>a \<in> set aulas.
             chk st (professorId a) (studentId a) (startTime a) (endTime a) None = None"
  shows "batchConflicts chk st aulas = []"
  using assms by (induction aulas) (auto simp: batchConflicts_def)

lemma controller_creates_batch:
  assumes "getUserById st (ag_professorId d) = Some professor" and "u_role professor = ''professor''"
    and "getLeadById st (ag_studentId d) = Some student"
    and "createAgendamentoRecorrente st d = (ag, st1)"
    and "generateRecurrentClasses now ag = Some aulas"
    and "\<forall>a \<in> set aulas.
           chk st1 (professorId a) (studentId a) (startTime a) (endTime a) None = None"
  shows "\<exists>created st'. createRecurrentScheduling chk now st (Inr d)
           = Some (Created201 ag created, st') \<and>
         st_aulas st' = st_aulas st @ created \<and>
         created = storeAulas (freshId (map aula_id (st_aulas st))) aulas"
  using assms batchConflicts_empty [where chk = chk and st = st1 and aulas = aulas]
    createAgendamento_store(1) [OF assms(4)]
  by (simp add: createRecurrentScheduling_def createMultipleAulas_def Let_def)

section \<open>Claims on the expansion\<close>

text \<open>
  C2. For the weekly rule on Mondays and Wednesdays over four weeks from Monday 2024-01-01 the
  claim asks for eight occurrences. The controller's expansion jumps seven days after every
  class it pushes, so it never reaches the Wednesdays: it yields the four Mondays.
\<close>

theorem weekly_controller_yields_mondays_only:
  "map_option (map (\<lambda>a. (sqlDATE (startTime a), getDay (startTime a))))
     (generateRecurrentClasses newYear weeklyRule)
   = Some [((2024, 0, 1), 1), ((2024, 0, 8), 1), ((2024, 0, 15), 1), ((2024, 0, 22), 1)]"
  by code_simp

text \<open>
  The inline expansion of the sessions request walks day by day and does yield the eight
  occurrences for the same series, Mondays and Wednesdays in increasing date order.
\<close>

lemma weekly_request_yields_eight:
  "map (\<lambda>s. (sqlDATE (slot_startTime s), getDay (slot_startTime s))) (generateSessions weeklyRequest)
   = [((2024, 0, 1), 1), ((2024, 0, 3), 3), ((2024, 0, 8), 1), ((2024, 0, 10), 3),
      ((2024, 0, 15), 1), ((2024, 0, 17), 3), ((2024, 0, 22), 1), ((2024, 0, 24), 3)]"
  by code_simp

text \<open>
  C3, as amended. Neither expansion clamps. For a monthly rule with a positive interval, the
  classes of the controller's expansion and the sessions of \<^verbatim>\<open>POST /api/sessions\<close> roll over
  short months: whenever the month \<open>interval\<close> months after an occurrence has fewer days than
  the occurrence's day of the month, no occurrence of the series falls in that month, and the
  occurrence that follows, if the series has one, falls in the month after it, on the day that
  is the surplus. The controller's expansion returns for such a rule.
\<close>

theorem monthly_rolls_over:
  "(rtype (ag_regras ag) = ''monthly'' \<and> 1 \<le> interval (ag_regras ag) \<and>
    valid_date (ag_startDate ag) \<longrightarrow>
      (\<exists>aulas. generateRecurrentClasses now ag = Some aulas \<and>
         rollsOver (interval (ag_regras ag)) (map startTime aulas)))
   \<and> (recurrenceType rq = ''monthly'' \<and> 1 \<le> recurrenceInterval rq \<and>
      valid_date (rq_startTime rq) \<longrightarrow>
        rollsOver (recurrenceInterval rq) (map slot_startTime (generateSessions rq)))"
proof (intro conjI impI)
  assume a: "rtype (ag_regras ag) = ''monthly'' \<and> 1 \<le> interval (ag_regras ag) \<and>
    valid_date (ag_startDate ag)"
  let ?M = "setMonth now (getMonth now + 6)"
  have sc: "sameClock (ag_startDate ag) (ag_startDate ag)" by (simp add: sameClock_def)
  from gen_loop_total [of ag "ag_startDate ag" ?M 0 "[]"] a sc
  obtain aulas where r: "gen_loop ag ?M (ag_startDate ag) 0 [] = Some aulas"
    by auto
  from gen_loop_monthly [OF r] a sc
  have "successively (monthStep (interval (ag_regras ag))) (map startTime aulas)"
    "\<forall>d \<in> set (map startTime aulas). valid_date d"
    by simp_all
  then have "rollsOver (interval (ag_regras ag)) (map startTime aulas)"
    using a by (intro monthly_series_rollsOver) simp_all
  with r show "\<exists>aulas. generateRecurrentClasses now ag = Some aulas \<and>
         rollsOver (interval (ag_regras ag)) (map startTime aulas)"
    by (simp add: generateRecurrentClasses_def Let_def)
next
  assume a: "recurrenceType rq = ''monthly'' \<and> 1 \<le> recurrenceInterval rq \<and>
      valid_date (rq_startTime rq)"
  from sessions_loop_monthly [of rq "rq_startTime rq" "[]"] a
  have "successively (monthStep (recurrenceInterval rq))
          (map slot_startTime (generateSessions rq))"
    "\<forall>d \<in> set (map slot_startTime (generateSessions rq)). valid_date d"
    by (simp_all add: generateSessions_def)
  then show "rollsOver (recurrenceInterval rq) (map slot_startTime (generateSessions rq))"
    using a by (intro monthly_series_rollsOver) simp_all
qed

theorem monthly_rolls_over_witness:
  "rtype (ag_regras marchRule) = ''monthly'' \<and> 1 \<le> interval (ag_regras marchRule) \<and>
   valid_date (ag_startDate marchRule) \<and>
   (\<exists>aulas. generateRecurrentClasses newYear marchRule = Some aulas \<and>
      rollsOver 1 (map startTime aulas) \<and>
      map (\<lambda>a. sqlDATE (startTime a)) aulas = [(2024, 2, 31), (2024, 4, 1), (2024, 5, 1)]) \<and>
   recurrenceType marchRequest = ''monthly'' \<and> 1 \<le> recurrenceInterval marchRequest \<and>
   valid_date (rq_startTime marchRequest) \<and>
   rollsOver 1 (map slot_startTime (generateSessions marchRequest)) \<and>
   map (\<lambda>s. sqlDATE (slot_startTime s)) (generateSessions marchRequest)
     = [(2024, 2, 31), (2024, 4, 1), (2024, 5, 1)] \<and>
   targetMonth (dateTime (2024, 2, 31) (9, 0)) 1 = (2024, 3) \<and> DaysInMonth 2024 3 < 31"
proof -
  have a: "rtype (ag_regras marchRule) = ''monthly''" "interval (ag_regras marchRule) = 1"
    by (simp_all add: marchRule_def monthlyRule_def)
  have b: "recurrenceType marchRequest = ''monthly''" "recurrenceInterval marchRequest = 1"
    by (simp_all add: marchRequest_def)
  have v: "valid_date (rq_startTime marchRequest)"
    by (simp add: marchRequest_def dateTime_def valid_date_def DaysInMonth_def)
  from monthly_rolls_over [of marchRule newYear marchRequest] a valid_examples(5)
  obtain aulas where r: "generateRecurrentClasses newYear marchRule = Some aulas"
    "rollsOver 1 (map startTime aulas)"
    by auto
  from monthly_rolls_over [of marchRule newYear marchRequest] b v
  have q: "rollsOver 1 (map slot_startTime (generateSessions marchRequest))"
    by simp
  have "map_option (map (\<lambda>a. sqlDATE (startTime a))) (generateRecurrentClasses newYear marchRule)
     = Some [(2024, 2, 31), (2024, 4, 1), (2024, 5, 1)]"
    by code_simp
  with r(1) have d: "map (\<lambda>a. sqlDATE (startTime a)) aulas
     = [(2024, 2, 31), (2024, 4, 1), (2024, 5, 1)]"
    by simp
  have e: "map (\<lambda>s. sqlDATE (slot_startTime s)) (generateSessions marchRequest)
     = [(2024, 2, 31), (2024, 4, 1), (2024, 5, 1)]"
    by code_simp
  have t: "targetMonth (dateTime (2024, 2, 31) (9, 0)) 1 = (2024, 3)" "DaysInMonth 2024 3 < 31"
    by (simp_all add: targetMonth_def dateTime_def DaysInMonth_def)
  from a b v valid_examples(5) r d q e t show ?thesis by auto
qed

text \<open>
  The claim as stated fails: the rule anchored on 2024-03-31 has no occurrence in April, whose
  last day is the 30th; the class that should fall there is pushed for the 1st of May, and
  the series stays on the 1st from then on.
\<close>

theorem monthly_clamp_counterexample:
  "map_option (map (\<lambda>a. sqlDATE (startTime a))) (generateRecurrentClasses newYear marchRule)
     = Some [(2024, 2, 31), (2024, 4, 1), (2024, 5, 1)] \<and>
   spec_monthly_date 2024 3 31 = (2024, 3, 30) \<and>
   spec_monthly_date 2024 3 31 \<notin> set [(2024, 2, 31), (2024, 4, 1), (2024, 5, 1)]"
proof -
  have "map_option (map (\<lambda>a. sqlDATE (startTime a))) (generateRecurrentClasses newYear marchRule)
     = Some [(2024, 2, 31), (2024, 4, 1), (2024, 5, 1)]"
    by code_simp
  then show ?thesis
    by (simp add: spec_monthly_date_def DaysInMonth_def InLeapYear_def)
qed




text \<open>
  C5, as amended. The controller's expansion returns for every rule with a positive interval.
  It has no ceiling on the number of occurrences: its only bound is the horizon of six months
  after the request, so every class starts no later than that and there is at most one class
  per day from the start date to the horizon. The inline expansion of the sessions request
  always returns, with at most 366 sessions, and at most 100 when the end type is not a count.
\<close>

theorem expansion_returns_within_horizon:
  assumes "1 \<le> interval (ag_regras ag)" and "valid_date (ag_startDate ag)"
  shows "(\<exists>aulas. generateRecurrentClasses now ag = Some aulas \<and>
            length aulas \<le> daysToHorizon (setMonth now (getMonth now + 6)) (ag_startDate ag) \<and>
            (\<forall>a \<in> set aulas. getTime (startTime a) \<le> getTime (setMonth now (getMonth now + 6))))
         \<and> length (generateSessions rq) \<le> 366
         \<and> (recurrenceEndType rq \<noteq> ''count'' \<longrightarrow> length (generateSessions rq) \<le> 100)"
proof (intro conjI)
  let ?M = "setMonth now (getMonth now + 6)"
  have sc: "sameClock (ag_startDate ag) (ag_startDate ag)" by (simp add: sameClock_def)
  from gen_loop_total [OF assms(1) assms(2) sc, of ?M 0 "[]"]
  obtain r where r: "gen_loop ag ?M (ag_startDate ag) 0 [] = Some r"
    "length r \<le> daysToHorizon ?M (ag_startDate ag)"
    "\<forall>a \<in> set r. \<exists>c. a = newAula ag c \<and> valid_date c \<and> sameClock c (ag_startDate ag) \<and>
                 getTime c \<le> getTime ?M"
    by auto
  have "\<forall>a \<in> set r. getTime (startTime a) \<le> getTime ?M"
  proof
    fix a assume "a \<in> set r"
    with r(3) obtain c where c: "a = newAula ag c" "valid_date c"
      "sameClock c (ag_startDate ag)" "getTime c \<le> getTime ?M" by blast
    show "getTime (startTime a) \<le> getTime ?M"
      using newAula_start [OF assms(2) c(2) c(3) refl] c(1,4) by simp
  qed
  with r(1,2)
  show "\<exists>aulas. generateRecurrentClasses now ag = Some aulas \<and>
            length aulas \<le> daysToHorizon ?M (ag_startDate ag) \<and>
            (\<forall>a \<in> set aulas. getTime (startTime a) \<le> getTime ?M)"
    by (simp add: generateRecurrentClasses_def Let_def)
next
  have hundred: "length (generateSessions rq) \<le> 100" if "recurrenceEndType rq \<noteq> ''count''"
  proof -
    define ed where "ed = (if recurrenceEndType rq = ''date'' then recurrenceEndDate rq else None)"
    have "length (sessions_loop rq (Some 100) ed (rq_startTime rq) 0 [])
            \<le> length ([] :: session_slot list) + nat (min 100 366 - 0)"
      by (rule sessions_loop_length) simp
    then show ?thesis using that by (simp add: generateSessions_def ed_def)
  qed
  show "length (generateSessions rq) \<le> 366"
  proof (cases "recurrenceEndType rq = ''count''")
    case True
    show ?thesis
    proof (cases "recurrenceEndCount rq")
      case None
      then show ?thesis using True by (simp add: generateSessions_def sessions_loop_none)
    next
      case (Some n)
      have "length (sessions_loop rq (Some n) None (rq_startTime rq) 0 [])
              \<le> length ([] :: session_slot list) + nat (min n 366 - 0)"
        by (rule sessions_loop_length) simp
      then show ?thesis
        using True Some by (simp add: generateSessions_def min_def split: if_splits)
    qed
  next
    case False
    then show ?thesis using hundred by simp
  qed
  show "recurrenceEndType rq \<noteq> ''count'' \<longrightarrow> length (generateSessions rq) \<le> 100"
    using hundred by simp
qed

theorem expansion_returns_within_horizon_witness:
  "1 \<le> interval (ag_regras weeklyRule) \<and> valid_date (ag_startDate weeklyRule) \<and>
   (\<exists>aulas. generateRecurrentClasses newYear weeklyRule = Some aulas \<and>
      length aulas \<le> daysToHorizon (setMonth newYear (getMonth newYear + 6))
                       (ag_startDate weeklyRule)) \<and>
   recurrenceEndType weeklyRequest \<noteq> ''count'' \<and> length (generateSessions weeklyRequest) \<le> 100"
proof -
  have i: "1 \<le> interval (ag_regras weeklyRule)" by (simp add: weeklyRule_def)
  have t: "recurrenceEndType weeklyRequest \<noteq> ''count''" by (simp add: weeklyRequest_def)
  from expansion_returns_within_horizon [OF i valid_examples(1), of newYear weeklyRequest] i t
    valid_examples(1)
  show ?thesis by blast
qed

text \<open>
  The claim as stated fails on the controller: a daily rule without an end that started a
  year before the request yields a class for each of the 547 days up to the horizon.
\<close>

theorem expansion_ceiling_counterexample:
  "map_option length (generateRecurrentClasses newYear dailyRule) = Some 547 \<and>
   \<not> spec_within_ceiling (generateRecurrentClasses newYear dailyRule)"
proof -
  have d: "rtype (ag_regras dailyRule) = ''daily''" "interval (ag_regras dailyRule) = 1"
    "ag_endDate dailyRule = None" "ag_maxOccurrences dailyRule = None"
    by (simp_all add: dailyRule_def weeklyRule_def)
  let ?M = "setMonth newYear (getMonth newYear + 6)"
  from gen_loop_daily_count [OF d valid_examples(3), of ?M 0 "[]"]
  obtain r where r: "gen_loop dailyRule ?M (ag_startDate dailyRule) 0 [] = Some r"
    "length r = daysToHorizon ?M (ag_startDate dailyRule)"
    by auto
  have "daysToHorizon ?M (ag_startDate dailyRule) = 547"
    by code_simp
  with r show ?thesis
    by (simp add: generateRecurrentClasses_def Let_def spec_within_ceiling_def)
qed

section \<open>Claims on the conflict check\<close>

text \<open>
  C1. The handler does not report the conflicts of the specification. Trainer 7 has a session
  booked from 09:00 to 10:00 of 2024-01-02; a check of that very window for the trainer, which
  the rule of the specification counts as a conflict with the session, is answered with status
  500: reading \<^verbatim>\<open>rows\<close> of the query's result raises. Whatever the sessions and the body, no
  answer of the handler names a session as a conflict.
\<close>

theorem conflict_check_reports_nothing:
  "spec_conflict (15 * 60000) 7 (toUTC 0 (dateTime (2024, 0, 2) (9, 0)))
     (toUTC 0 (dateTime (2024, 0, 2) (10, 0))) bookedSession \<and>
   checkConflicts 0 [bookedSession] someLeads (checkFor (9, 0) (10, 0)) = ServerError500 \<and>
   \<not> reportsConflict (checkConflicts tz sessions leads body) s"
proof -
  have a: "spec_conflict (15 * 60000) 7 (toUTC 0 (dateTime (2024, 0, 2) (9, 0)))
     (toUTC 0 (dateTime (2024, 0, 2) (10, 0))) bookedSession"
    by code_simp
  have b: "checkConflicts 0 [bookedSession] someLeads (checkFor (9, 0) (10, 0)) = ServerError500"
    by code_simp
  have c: "\<not> reportsConflict (checkConflicts tz sessions leads body) s"
    using checkConflicts_answers [of tz sessions leads body]
    by (auto simp: reportsConflict_def)
  from a b c show ?thesis by blast
qed

text \<open>
  C9. The handler suggests no times. For the check of 09:00 to 10:00 against the session booked
  in that window, the slot from 06:00 to 07:00 of the ladder is free of sessions, so a
  suggestion is due; the request passes the test of its parameters and is then answered with
  status 500. Whatever the sessions and the body, no answer of the handler carries a suggested
  time.
\<close>

theorem conflict_check_suggests_nothing:
  "slotConflictCount [bookedSession] 7 (2024, 0, 2) (toUTC 0 (dateTime (2024, 0, 2) (6, 0)))
     (toUTC 0 (dateTime (2024, 0, 2) (7, 0))) = 0 \<and>
   checkConflicts 0 [bookedSession] someLeads (checkFor (9, 0) (10, 0)) \<noteq> BadRequest400 \<and>
   suggestionsOf (checkConflicts tz sessions leads body) = []"
proof -
  have a: "slotConflictCount [bookedSession] 7 (2024, 0, 2)
     (toUTC 0 (dateTime (2024, 0, 2) (6, 0))) (toUTC 0 (dateTime (2024, 0, 2) (7, 0))) = 0"
    by code_simp
  have b: "checkConflicts 0 [bookedSession] someLeads (checkFor (9, 0) (10, 0)) \<noteq> BadRequest400"
    by code_simp
  have c: "suggestionsOf (checkConflicts tz sessions leads body) = []"
    using checkConflicts_answers [of tz sessions leads body]
    by (auto simp: suggestionsOf_def)
  from a b c show ?thesis by blast
qed

section \<open>Claims on the handlers\<close>





text \<open>
  C8. The handler of \<^verbatim>\<open>POST /api/new-scheduling/recurrent\<close> commits a batch that fails conflict
  validation. Professor 2 has a class from 09:00 to 10:00 of 2024-01-01, with which the checker
  of the specification rejects that window; a weekly rule of the professor for 09:00 on
  Mondays from that day is answered with the rule, and its classes of 2024-01-01 and
  2024-01-08 are stored next to the two classes the store held. The controller's handler
  answers the same request with status 409 and stores no class.
\<close>

theorem route_stores_colliding_batch:
  "checkSchedulingConflicts exampleStore 2 3 (dateTime (2024, 0, 1) (9, 0))
     (dateTime (2024, 0, 1) (10, 0)) None = Some (classAt (9, 0) (10, 0) 1) \<and>
   (case postRecurrent 0 exampleStore weeklyData of
      (Recurrent200 agendamento, st') \<Rightarrow>
        map (\<lambda>a. (aula_id a, agendamentoRecorrenteId a, professorId a, sqlDATE (startTime a),
                   getHours (startTime a), getHours (endTime a))) (st_aulas st')
          = [(1, None, 2, (2024, 0, 1), 9, 10), (2, None, 2, (2024, 0, 1), 10, 11),
             (3, Some (ag_id agendamento), 2, (2024, 0, 1), 9, 10),
             (4, Some (ag_id agendamento), 2, (2024, 0, 8), 9, 10)]
    | _ \<Rightarrow> False) \<and>
   map_option (\<lambda>(response, st'). (case response of Conflict409 conflicts \<Rightarrow> True | _ \<Rightarrow> False,
                                   map aula_id (st_aulas st')))
     (createRecurrentScheduling checkSchedulingConflicts newYear exampleStore (Inr weeklyData))
     = Some (True, [1, 2])"
  by code_simp

text \<open>
  C10. The handler stores the rule before it expands and checks it, and it answers a rejected
  batch without taking the rule back: after the answer with status 409 the store holds the
  new rule, with the active flag of the request, and no class that refers to it.
\<close>

theorem rejected_batch_leaves_rule:
  assumes "getUserById st (ag_professorId d) = Some professor"
    and "u_role professor = ''professor''"
    and "getLeadById st (ag_studentId d) = Some student"
    and "createAgendamentoRecorrente st d = (ag, st1)"
    and "generateRecurrentClasses now ag = Some aulas"
    and "a \<in> set aulas"
    and "chk st1 (professorId a) (studentId a) (startTime a) (endTime a) None = Some conflict"
    and "\<forall>x \<in> set (st_aulas st). \<forall>i. agendamentoRecorrenteId x = Some i
           \<longrightarrow> i \<in> set (map ag_id (st_agendamentos st))"
  shows "createRecurrentScheduling chk now st (Inr d)
           = Some (Conflict409 (batchConflicts chk st1 aulas), st1) \<and>
         batchConflicts chk st1 aulas \<noteq> [] \<and>
         ag \<in> set (st_agendamentos st1) \<and> ag_id ag \<notin> set (map ag_id (st_agendamentos st)) \<and>
         ag_active ag = ag_active d \<and>
         (\<forall>x \<in> set (st_aulas st1). agendamentoRecorrenteId x \<noteq> Some (ag_id ag))"
proof -
  note ne = batchConflicts_nonempty [of a aulas chk st1 conflict, OF assms(6,7)]
  note s = createAgendamento_store [OF assms(4)]
  have fresh: "ag_id ag \<notin> set (map ag_id (st_agendamentos st))"
    unfolding s(3) by (rule freshId_fresh)
  have "createRecurrentScheduling chk now st (Inr d)
           = Some (Conflict409 (batchConflicts chk st1 aulas), st1)"
    using ne by (simp add: createRecurrentScheduling_def assms(1-5) Let_def)
  moreover have "\<forall>x \<in> set (st_aulas st1). agendamentoRecorrenteId x \<noteq> Some (ag_id ag)"
    using assms(8) fresh unfolding s(1) by blast
  ultimately show ?thesis using ne fresh s(2,4) by simp
qed

theorem rejected_batch_leaves_rule_witness:
  "getUserById exampleStore (ag_professorId weeklyData)
     = Some \<lparr>u_id = 2, u_role = ''professor''\<rparr> \<and>
   getLeadById exampleStore (ag_studentId weeklyData) = Some \<lparr>l_id = 3, l_name = ''Ana''\<rparr> \<and>
   generateRecurrentClasses newYear (fst (createAgendamentoRecorrente exampleStore weeklyData))
     \<noteq> None \<and>
   checkSchedulingConflicts (snd (createAgendamentoRecorrente exampleStore weeklyData)) 2 3
     (dateTime (2024, 0, 1) (9, 0)) (dateTime (2024, 0, 1) (10, 0)) None
     = Some (classAt (9, 0) (10, 0) 1) \<and>
   map agendamentoRecorrenteId (st_aulas exampleStore) = [None, None] \<and>
   (\<exists>conflicts. conflicts \<noteq> [] \<and>
      createRecurrentScheduling checkSchedulingConflicts newYear exampleStore (Inr weeklyData)
        = Some (Conflict409 conflicts,
                snd (createAgendamentoRecorrente exampleStore weeklyData))) \<and>
   fst (createAgendamentoRecorrente exampleStore weeklyData)
     \<in> set (st_agendamentos (snd (createAgendamentoRecorrente exampleStore weeklyData))) \<and>
   ag_active (fst (createAgendamentoRecorrente exampleStore weeklyData))"
proof -
  obtain ag st1 where c: "createAgendamentoRecorrente exampleStore weeklyData = (ag, st1)"
    by (cases "createAgendamentoRecorrente exampleStore weeklyData")
  have u: "getUserById exampleStore (ag_professorId weeklyData)
             = Some \<lparr>u_id = 2, u_role = ''professor''\<rparr>"
    "u_role \<lparr>u_id = 2, u_role = ''professor''\<rparr> = ''professor''"
    "getLeadById exampleStore (ag_studentId weeklyData) = Some \<lparr>l_id = 3, l_name = ''Ana''\<rparr>"
    by code_simp+
  have g: "map_option (map (\<lambda>a. (professorId a, studentId a, startTime a, endTime a)))
             (generateRecurrentClasses newYear
                (fst (createAgendamentoRecorrente exampleStore weeklyData)))
      = Some [(2, 3, dateTime (2024, 0, 1) (9, 0), dateTime (2024, 0, 1) (10, 0)),
              (2, 3, dateTime (2024, 0, 8) (9, 0), dateTime (2024, 0, 8) (10, 0))]"
    by code_simp
  then obtain aulas where aulas: "generateRecurrentClasses newYear ag = Some aulas"
    and m: "map (\<lambda>a. (professorId a, studentId a, startTime a, endTime a)) aulas
      = [(2, 3, dateTime (2024, 0, 1) (9, 0), dateTime (2024, 0, 1) (10, 0)),
         (2, 3, dateTime (2024, 0, 8) (9, 0), dateTime (2024, 0, 8) (10, 0))]"
    by (auto simp: c)
  from m obtain a rest where ar: "aulas = a # rest" by (cases aulas) auto
  with m have a: "professorId a = 2" "studentId a = 3"
    "startTime a = dateTime (2024, 0, 1) (9, 0)" "endTime a = dateTime (2024, 0, 1) (10, 0)"
    by auto
  have k0: "checkSchedulingConflicts (snd (createAgendamentoRecorrente exampleStore weeklyData))
     2 3 (dateTime (2024, 0, 1) (9, 0)) (dateTime (2024, 0, 1) (10, 0)) None
     = Some (classAt (9, 0) (10, 0) 1)"
    by code_simp
  then have k: "checkSchedulingConflicts st1 (professorId a) (studentId a) (startTime a)
     (endTime a) None = Some (classAt (9, 0) (10, 0) 1)"
    by (simp add: c a)
  have ain: "a \<in> set aulas" by (simp add: ar)
  have n: "map agendamentoRecorrenteId (st_aulas exampleStore) = [None, None]"
    by (simp add: exampleStore_def classAt_def)
  have fk: "\<forall>x \<in> set (st_aulas exampleStore). \<forall>i. agendamentoRecorrenteId x = Some i
           \<longrightarrow> i \<in> set (map ag_id (st_agendamentos exampleStore))"
    by (simp add: exampleStore_def classAt_def)
  have act: "ag_active weeklyData" by (simp add: weeklyData_def)
  from rejected_batch_leaves_rule [where chk = checkSchedulingConflicts,
      OF u c aulas ain k fk] act
  have "createRecurrentScheduling checkSchedulingConflicts newYear exampleStore (Inr weeklyData)
           = Some (Conflict409 (batchConflicts checkSchedulingConflicts st1 aulas), st1)"
    and "batchConflicts checkSchedulingConflicts st1 aulas \<noteq> []"
    and "ag \<in> set (st_agendamentos st1)" and "ag_active ag"
    by simp_all
  then show ?thesis
    using u(1,3) k0 n by (simp add: c aulas)
qed

end
